theory Spec2Isabelle
  imports Main
begin

section \<open>Characters and character classes of the regular expressions\<close>

text \<open>
  A line of a scanned file is a \<open>string\<close>; a \<open>char\<close> stands for the code unit with the
  same number (code units below 256).  Every character the patterns of
  \<^verbatim>\<open>side-effects-linter.js\<close> name is ASCII.
\<close>

definition code_unit :: "char \<Rightarrow> nat" where
  "code_unit c = of_char c"

text \<open>\<^verbatim>\<open>[a-z]\<close>, \<^verbatim>\<open>[A-Z]\<close> and \<^verbatim>\<open>[0-9]\<close>.\<close>

definition is_lower :: "char \<Rightarrow> bool" where
  "is_lower c = (code_unit CHR ''a'' \<le> code_unit c \<and> code_unit c \<le> code_unit CHR ''z'')"

definition is_upper :: "char \<Rightarrow> bool" where
  "is_upper c = (code_unit CHR ''A'' \<le> code_unit c \<and> code_unit c \<le> code_unit CHR ''Z'')"

definition is_digit :: "char \<Rightarrow> bool" where
  "is_digit c = (code_unit CHR ''0'' \<le> code_unit c \<and> code_unit c \<le> code_unit CHR ''9'')"

text \<open>\<^verbatim>\<open>\w\<close> is \<^verbatim>\<open>[A-Za-z0-9_]\<close>.\<close>

definition is_word :: "char \<Rightarrow> bool" where
  "is_word c = (is_lower c \<or> is_upper c \<or> is_digit c \<or> c = CHR ''_'')"

text \<open>\<^verbatim>\<open>\s\<close>, and what \<^verbatim>\<open>trim()\<close> strips: tab, line feed, vertical tab, form
  feed, carriage return, space and the no-break space.\<close>

definition is_space :: "char \<Rightarrow> bool" where
  "is_space c = (code_unit c \<in> {9, 10, 11, 12, 13, 32, 160})"

text \<open>\<^verbatim>\<open>.\<close> matches every character but a line terminator.\<close>

definition is_dot :: "char \<Rightarrow> bool" where
  "is_dot c = (code_unit c \<noteq> 10 \<and> code_unit c \<noteq> 13)"

text \<open>Canonicalisation under the \<^verbatim>\<open>i\<close> flag: the upper case of an ASCII letter.  A
  code unit from 128 on is never canonicalised to an ASCII one, so a comparison with the
  ASCII letters of a pattern only needs the ASCII part.\<close>

definition canonicalize :: "char \<Rightarrow> char" where
  "canonicalize c = (if is_lower c then char_of (code_unit c - 32) else c)"

text \<open>\<^verbatim>\<open>String.prototype.trim\<close>.\<close>

definition trim :: "string \<Rightarrow> string" where
  "trim s = rev (dropWhile is_space (rev (dropWhile is_space s)))"

section \<open>Regular expressions and \<^verbatim>\<open>RegExp.prototype.test\<close>\<close>

datatype regex =
    Chars "char \<Rightarrow> bool"
  | Bol
  | Eol
  | WordB
  | Eps
  | Seq regex regex
  | Alt regex regex
  | Star regex

text \<open>A continuation receives the character before the current position (\<open>None\<close> at the
  start of the input) and the rest of the input.\<close>

type_synonym cont = "char option \<Rightarrow> string \<Rightarrow> bool"

definition word_before :: "char option \<Rightarrow> bool" where
  "word_before p = (case p of None \<Rightarrow> False | Some c \<Rightarrow> is_word c)"

definition word_after :: "string \<Rightarrow> bool" where
  "word_after s = (case s of [] \<Rightarrow> False | c # cs \<Rightarrow> is_word c)"

text \<open>The greedy repetition of a matcher: one more iteration first, the continuation
  otherwise.  An iteration that consumes nothing cannot add a match, so at most
  \<open>length s\<close> iterations are useful, and that count bounds the recursion.  Every
  repetition in the patterns below repeats a character class, which consumes one
  character in each iteration.\<close>

primrec repeat :: "nat \<Rightarrow> (cont \<Rightarrow> cont) \<Rightarrow> cont \<Rightarrow> cont" where
  "repeat 0 m k p s = k p s"
| "repeat (Suc n) m k p s = (if m (repeat n m k) p s then True else k p s)"

primrec matcher :: "regex \<Rightarrow> cont \<Rightarrow> cont" where
  "matcher (Chars A) k p s =
     (case s of [] \<Rightarrow> False | c # cs \<Rightarrow> if A c then k (Some c) cs else False)"
| "matcher Bol k p s = (if p = None then k p s else False)"
| "matcher Eol k p s = (if s = [] then k p s else False)"
| "matcher WordB k p s = (if word_before p \<noteq> word_after s then k p s else False)"
| "matcher Eps k p s = k p s"
| "matcher (Seq a b) k p s = matcher a (matcher b k) p s"
| "matcher (Alt a b) k p s = (if matcher a k p s then True else matcher b k p s)"
| "matcher (Star a) k p s = repeat (length s) (matcher a) k p s"

definition accept :: cont where
  "accept p s = True"

text \<open>The character before the position reached after reading \<open>w\<close>.\<close>

definition before :: "char option \<Rightarrow> string \<Rightarrow> char option" where
  "before p w = (if w = [] then p else Some (last w))"

text \<open>\<^verbatim>\<open>r.test(s)\<close> for a pattern without the \<^verbatim>\<open>g\<close> and \<^verbatim>\<open>y\<close> flags: is there a
  match starting at some index of \<open>s\<close>, the indices tried from 0 on.\<close>

fun search :: "regex \<Rightarrow> char option \<Rightarrow> string \<Rightarrow> bool" where
  "search r p [] = matcher r accept p []"
| "search r p (c # cs) = (if matcher r accept p (c # cs) then True else search r (Some c) cs)"

definition test :: "regex \<Rightarrow> string \<Rightarrow> bool" where
  "test r s = search r None s"

subsection \<open>Notation of the patterns\<close>

definition chr :: "char \<Rightarrow> regex" where
  "chr c = Chars (\<lambda>x. x = c)"

definition ichr :: "char \<Rightarrow> regex" where
  "ichr c = Chars (\<lambda>x. canonicalize x = canonicalize c)"

definition seqs :: "regex list \<Rightarrow> regex" where
  "seqs rs = foldr Seq rs Eps"

fun alts :: "regex list \<Rightarrow> regex" where
  "alts [] = Eps"
| "alts [r] = r"
| "alts (r # rs) = Alt r (alts rs)"

definition str :: "string \<Rightarrow> regex" where
  "str s = seqs (map chr s)"

definition istr :: "string \<Rightarrow> regex" where
  "istr s = seqs (map ichr s)"

definition Plus :: "regex \<Rightarrow> regex" where
  "Plus r = Seq r (Star r)"

definition Opt :: "regex \<Rightarrow> regex" where
  "Opt r = Alt r Eps"

text \<open>\<^verbatim>\<open>\s\<close>, \<^verbatim>\<open>\w\<close>, \<^verbatim>\<open>.\<close>, \<^verbatim>\<open>[a-zA-Z0-9_]\<close>, \<^verbatim>\<open>[a-zA-Z]\<close>.\<close>

definition ws :: regex where
  "ws = Chars is_space"

definition wordc :: regex where
  "wordc = Chars is_word"

definition dot :: regex where
  "dot = Chars is_dot"

definition alnum_us :: regex where
  "alnum_us = Chars (\<lambda>c. is_lower c \<or> is_upper c \<or> is_digit c \<or> c = CHR ''_'')"

definition alpha :: regex where
  "alpha = Chars (\<lambda>c. is_lower c \<or> is_upper c)"

section \<open>The pattern registry\<close>

text \<open>\<^verbatim>\<open>SIDE_EFFECT_PATTERNS\<close>, in the order of the source:
  \<^verbatim>\<open>/\b(firebase|AWS|Azure|amplify|gapi|Stripe|Twilio)[\s.]*\w*\s*\(.*\)/i\<close>,
  \<^verbatim>\<open>/(?:window|globalThis|global)\.[a-zA-Z0-9_]+\s*=/\<close>,
  \<^verbatim>\<open>/(?:window|document)\.(addEventListener|on[a-zA-Z]+)\s*\(/\<close>,
  \<^verbatim>\<open>/^[ \t]*[a-zA-Z0-9_$.]+\s*\(.*\);?\s*$/\<close>,
  \<^verbatim>\<open>/Object\.defineProperty\s*\(\s*window[ ,]/\<close>,
  \<^verbatim>\<open>/(?:window|globalThis|global)\.[a-zA-Z0-9_]+\s*\./\<close>.
  Under the \<^verbatim>\<open>i\<close> flag the classes \<^verbatim>\<open>[\s.]\<close>, \<^verbatim>\<open>\w\<close>, \<^verbatim>\<open>\s\<close> and \<^verbatim>\<open>.\<close>
  and the parentheses match what they match without it.\<close>

definition sdk_names :: "string list" where
  "sdk_names = [''firebase'', ''AWS'', ''Azure'', ''amplify'', ''gapi'', ''Stripe'', ''Twilio'']"

definition pat_sdk :: regex where
  "pat_sdk = seqs [WordB, alts (map istr sdk_names),
     Star (Chars (\<lambda>c. is_space c \<or> c = CHR ''.'')), Star wordc, Star ws,
     chr CHR ''('', Star dot, chr CHR '')'']"

definition pat_assign :: regex where
  "pat_assign = seqs [alts [str ''window'', str ''globalThis'', str ''global''],
     chr CHR ''.'', Plus alnum_us, Star ws, chr CHR ''='']"

definition pat_listener :: regex where
  "pat_listener = seqs [alts [str ''window'', str ''document''], chr CHR ''.'',
     alts [str ''addEventListener'', seqs [str ''on'', Plus alpha]], Star ws, chr CHR ''('']"

definition pat_call :: regex where
  "pat_call = seqs [Bol, Star (Chars (\<lambda>c. c = CHR '' '' \<or> c = CHR 0x09)),
     Plus (Chars (\<lambda>c. is_lower c \<or> is_upper c \<or> is_digit c \<or> c = CHR ''_''
                       \<or> c = CHR ''$'' \<or> c = CHR ''.'')),
     Star ws, chr CHR ''('', Star dot, chr CHR '')'', Opt (chr CHR '';''), Star ws, Eol]"

definition pat_define :: regex where
  "pat_define = seqs [str ''Object'', chr CHR ''.'', str ''defineProperty'', Star ws,
     chr CHR ''('', Star ws, str ''window'', Chars (\<lambda>c. c = CHR '' '' \<or> c = CHR '','')]"

definition pat_mutate :: regex where
  "pat_mutate = seqs [alts [str ''window'', str ''globalThis'', str ''global''],
     chr CHR ''.'', Plus alnum_us, Star ws, chr CHR ''.'']"

definition SIDE_EFFECT_PATTERNS :: "regex list" where
  "SIDE_EFFECT_PATTERNS = [pat_sdk, pat_assign, pat_listener, pat_call, pat_define, pat_mutate]"

text \<open>\<^verbatim>\<open>IGNORE_PATTERNS\<close>:
  \<^verbatim>\<open>/^export\s+(default\s+)?(function|class|const|let|var|async|{)/\<close>,
  \<^verbatim>\<open>/^(function|class|const|let|var|async)\s/\<close>,
  \<^verbatim>\<open>/^\/\//\<close>, \<^verbatim>\<open>/^\s*\/\*/\<close>, \<^verbatim>\<open>/^\s*\*\//\<close>, \<^verbatim>\<open>/^\s*\*/\<close>,
  \<^verbatim>\<open>/^\s*$/\<close>.\<close>

definition ign_export :: regex where
  "ign_export = seqs [Bol, str ''export'', Plus ws, Opt (seqs [str ''default'', Plus ws]),
     alts [str ''function'', str ''class'', str ''const'', str ''let'', str ''var'',
           str ''async'', chr CHR ''{'']]"

definition ign_decl :: regex where
  "ign_decl = seqs [Bol,
     alts [str ''function'', str ''class'', str ''const'', str ''let'', str ''var'',
           str ''async''], ws]"

definition ign_line_comment :: regex where
  "ign_line_comment = seqs [Bol, chr CHR ''/'', chr CHR ''/'']"

definition ign_block_start :: regex where
  "ign_block_start = seqs [Bol, Star ws, chr CHR ''/'', chr CHR ''*'']"

definition ign_block_end :: regex where
  "ign_block_end = seqs [Bol, Star ws, chr CHR ''*'', chr CHR ''/'']"

definition ign_block_line :: regex where
  "ign_block_line = seqs [Bol, Star ws, chr CHR ''*'']"

definition ign_empty :: regex where
  "ign_empty = seqs [Bol, Star ws, Eol]"

definition IGNORE_PATTERNS :: "regex list" where
  "IGNORE_PATTERNS = [ign_export, ign_decl, ign_line_comment, ign_block_start, ign_block_end,
     ign_block_line, ign_empty]"

text \<open>The patterns of the loop of \<^verbatim>\<open>analyzeFile\<close>:
  \<^verbatim>\<open>/^(export\s+)?(async\s+)?function\s|^(export\s+)?class\s/\<close>, \<^verbatim>\<open>/{/\<close> and
  \<^verbatim>\<open>/}/\<close>.\<close>

definition rx_block_opener :: regex where
  "rx_block_opener = Alt
     (seqs [Bol, Opt (seqs [str ''export'', Plus ws]), Opt (seqs [str ''async'', Plus ws]),
            str ''function'', ws])
     (seqs [Bol, Opt (seqs [str ''export'', Plus ws]), str ''class'', ws])"

definition rx_lbrace :: regex where
  "rx_lbrace = chr CHR ''{''"

definition rx_rbrace :: regex where
  "rx_rbrace = chr CHR ''}''"

section \<open>\<^verbatim>\<open>explainSideEffect\<close>\<close>

text \<open>The function writes its six patterns out again, as literals of its own.\<close>

definition exp_sdk :: regex where
  "exp_sdk = seqs [WordB,
     alts [istr ''firebase'', istr ''AWS'', istr ''Azure'', istr ''amplify'', istr ''gapi'',
           istr ''Stripe'', istr ''Twilio''],
     Star (Chars (\<lambda>c. is_space c \<or> c = CHR ''.'')), Star wordc, Star ws,
     chr CHR ''('', Star dot, chr CHR '')'']"

definition exp_assign :: regex where
  "exp_assign = seqs [alts [str ''window'', str ''globalThis'', str ''global''],
     chr CHR ''.'', Plus alnum_us, Star ws, chr CHR ''='']"

definition exp_listener :: regex where
  "exp_listener = seqs [alts [str ''window'', str ''document''], chr CHR ''.'',
     alts [str ''addEventListener'', seqs [str ''on'', Plus alpha]], Star ws, chr CHR ''('']"

definition exp_define :: regex where
  "exp_define = seqs [str ''Object'', chr CHR ''.'', str ''defineProperty'', Star ws,
     chr CHR ''('', Star ws, str ''window'', Chars (\<lambda>c. c = CHR '' '' \<or> c = CHR '','')]"

definition exp_mutate :: regex where
  "exp_mutate = seqs [alts [str ''window'', str ''globalThis'', str ''global''],
     chr CHR ''.'', Plus alnum_us, Star ws, chr CHR ''.'']"

definition exp_call :: regex where
  "exp_call = seqs [Bol, Star (Chars (\<lambda>c. c = CHR '' '' \<or> c = CHR 0x09)),
     Plus (Chars (\<lambda>c. is_lower c \<or> is_upper c \<or> is_digit c \<or> c = CHR ''_''
                       \<or> c = CHR ''$'' \<or> c = CHR ''.'')),
     Star ws, chr CHR ''('', Star dot, chr CHR '')'', Opt (chr CHR '';''), Star ws, Eol]"

definition explainSideEffect :: "string \<Rightarrow> string" where
  "explainSideEffect ln =
     (if test exp_sdk ln then ''Service initialization at top level (e.g., SDK init)''
      else if test exp_assign ln then ''Assignment to window/global/globalThis at top level''
      else if test exp_listener ln then ''Top-level event listener setup''
      else if test exp_define ln then ''Defining property on window at top level''
      else if test exp_mutate ln
        then ''Direct mutation of window/global/globalThis property at top level''
      else if test exp_call ln
        then ''Function/method call at top level (not wrapped in function/class)''
      else ''Possible side effect'')"

section \<open>\<^verbatim>\<open>analyzeFile\<close>\<close>

text \<open>A finding: the fields \<^verbatim>\<open>file\<close>, \<^verbatim>\<open>line\<close>, \<^verbatim>\<open>code\<close> and \<^verbatim>\<open>reason\<close> of the
  object pushed by \<^verbatim>\<open>analyzeFile\<close>.\<close>

record finding =
  f_file :: string
  f_line :: nat
  f_code :: string
  f_reason :: string

text \<open>The variables of the loop.  \<^verbatim>\<open>blockDepth\<close> is a JavaScript number that only
  ever changes by 1 from 0, an integer.\<close>

record scan_state =
  inFunctionOrClass :: bool
  blockDepth :: int
  findings :: "finding list"

text \<open>The end of the loop body, for a line outside every tracked block: the ignore
  patterns first, then the first side-effect pattern that matches.  \<open>i\<close> is the index of
  the line, from 0.\<close>

definition classify :: "string \<Rightarrow> nat \<Rightarrow> string \<Rightarrow> finding option" where
  "classify filePath i ln =
     (if list_ex (\<lambda>r. test r ln) IGNORE_PATTERNS then None
      else (case find (\<lambda>pattern. test pattern ln) SIDE_EFFECT_PATTERNS of
              None \<Rightarrow> None
            | Some pattern \<Rightarrow>
                Some \<lparr>f_file = filePath, f_line = i + 1, f_code = ln,
                      f_reason = explainSideEffect ln\<rparr>))"

text \<open>One iteration of the loop.\<close>

definition loop_body :: "string \<Rightarrow> nat \<Rightarrow> string \<Rightarrow> scan_state \<Rightarrow> scan_state" where
  "loop_body filePath i ln st =
     (let trimmed = trim ln;
          st1 = (if test rx_block_opener trimmed then st\<lparr>inFunctionOrClass := True\<rparr> else st)
      in if inFunctionOrClass st1 then
           let st2 = (if test rx_lbrace ln then st1\<lparr>blockDepth := blockDepth st1 + 1\<rparr>
                      else st1);
               st3 = (if test rx_rbrace ln then st2\<lparr>blockDepth := blockDepth st2 - 1\<rparr>
                      else st2)
           in (if blockDepth st3 \<le> 0 then st3\<lparr>inFunctionOrClass := False\<rparr> else st3)
         else (case classify filePath i ln of
                 None \<Rightarrow> st1
               | Some f \<Rightarrow> st1\<lparr>findings := findings st1 @ [f]\<rparr>))"

fun scan_lines :: "string \<Rightarrow> nat \<Rightarrow> string list \<Rightarrow> scan_state \<Rightarrow> scan_state" where
  "scan_lines filePath i [] st = st"
| "scan_lines filePath i (ln # lns) st =
     scan_lines filePath (i + 1) lns (loop_body filePath i ln st)"

definition initial_state :: scan_state where
  "initial_state = \<lparr>inFunctionOrClass = False, blockDepth = 0, findings = []\<rparr>"

definition analyzeLines :: "string \<Rightarrow> string list \<Rightarrow> finding list" where
  "analyzeLines filePath lns = findings (scan_lines filePath 0 lns initial_state)"

text \<open>\<^verbatim>\<open>split(/\r?\n/)\<close>: a line feed, with the carriage return before it if there is
  one, ends a line; \<open>cur\<close> is the line read so far, reversed.\<close>

fun split_lines :: "string \<Rightarrow> string \<Rightarrow> string list" where
  "split_lines cur [] = [rev cur]"
| "split_lines cur (c # cs) =
     (if c = CHR 0x0A then rev cur # split_lines [] cs
      else if c = CHR 0x0D \<and> cs \<noteq> [] \<and> hd cs = CHR 0x0A then rev cur # split_lines [] (tl cs)
      else split_lines (c # cur) cs)"

text \<open>\<open>readFileSync\<close> gives the text of the file at a path.\<close>

definition analyzeFile :: "(string \<Rightarrow> string) \<Rightarrow> string \<Rightarrow> finding list" where
  "analyzeFile readFileSync filePath =
     analyzeLines filePath (split_lines [] (readFileSync filePath))"

section \<open>\<^verbatim>\<open>main\<close>: the findings of all the files\<close>

definition UTILS_DIRS :: "string list" where
  "UTILS_DIRS = [''src/utils/'', ''src/services/'', ''src/modules/'', ''utils/'', ''lib/'']"

text \<open>The body of the inner loop: the findings of one file, appended when there are any.\<close>

definition scan_into :: "(string \<Rightarrow> string) \<Rightarrow> finding list \<Rightarrow> string \<Rightarrow> finding list" where
  "scan_into readFileSync allFindings filePath =
     (let fs = analyzeFile readFileSync filePath
      in if length fs \<noteq> 0 then allFindings @ fs else allFindings)"

text \<open>\<open>getAllFiles\<close> gives the files found under a directory, in the order of the
  traversal.\<close>

definition main_findings ::
  "(string \<Rightarrow> string list) \<Rightarrow> (string \<Rightarrow> string) \<Rightarrow> finding list" where
  "main_findings getAllFiles readFileSync =
     foldl (\<lambda>allFindings dir. foldl (scan_into readFileSync) allFindings (getAllFiles dir))
       [] UTILS_DIRS"

section \<open>The shared pattern objects\<close>

text \<open>\<^verbatim>\<open>SIDE_EFFECT_PATTERNS\<close> and \<^verbatim>\<open>IGNORE_PATTERNS\<close> are arrays of
  \<^verbatim>\<open>RegExp\<close> objects, made once when the module is loaded and used by every call of
  \<^verbatim>\<open>analyzeFile\<close>.  Such an object has the flags of its literal and a writable
  \<^verbatim>\<open>lastIndex\<close>, and \<^verbatim>\<open>test\<close> may change it; so the analysis is given here once
  more with the objects as a state that each call of \<^verbatim>\<open>test\<close> returns.\<close>

text \<open>The matcher with the end of the match as its result: the number of characters
  left after it.  Alternatives are tried in the order of \<open>matcher\<close>.\<close>

type_synonym econt = "char option \<Rightarrow> string \<Rightarrow> nat option"

primrec repeat_end :: "nat \<Rightarrow> (econt \<Rightarrow> econt) \<Rightarrow> econt \<Rightarrow> econt" where
  "repeat_end 0 m k p s = k p s"
| "repeat_end (Suc n) m k p s =
     (case m (repeat_end n m k) p s of Some e \<Rightarrow> Some e | None \<Rightarrow> k p s)"

primrec matcher_end :: "regex \<Rightarrow> econt \<Rightarrow> econt" where
  "matcher_end (Chars A) k p s =
     (case s of [] \<Rightarrow> None | c # cs \<Rightarrow> if A c then k (Some c) cs else None)"
| "matcher_end Bol k p s = (if p = None then k p s else None)"
| "matcher_end Eol k p s = (if s = [] then k p s else None)"
| "matcher_end WordB k p s = (if word_before p \<noteq> word_after s then k p s else None)"
| "matcher_end Eps k p s = k p s"
| "matcher_end (Seq a b) k p s = matcher_end a (matcher_end b k) p s"
| "matcher_end (Alt a b) k p s =
     (case matcher_end a k p s of Some e \<Rightarrow> Some e | None \<Rightarrow> matcher_end b k p s)"
| "matcher_end (Star a) k p s = repeat_end (length s) (matcher_end a) k p s"

definition rest_length :: econt where
  "rest_length p s = Some (length s)"

fun scan_from :: "regex \<Rightarrow> bool \<Rightarrow> char option \<Rightarrow> string \<Rightarrow> nat option" where
  "scan_from r y p [] = matcher_end r rest_length p []"
| "scan_from r y p (c # cs) =
     (case matcher_end r rest_length p (c # cs) of
        Some e \<Rightarrow> Some e
      | None \<Rightarrow> if y then None else scan_from r y (Some c) cs)"

text \<open>A \<^verbatim>\<open>RegExp\<close> object, and \<^verbatim>\<open>test\<close> on it as \<^verbatim>\<open>RegExpBuiltinExec\<close> has it:
  with the \<^verbatim>\<open>g\<close> or \<^verbatim>\<open>y\<close> flag the search starts at \<^verbatim>\<open>lastIndex\<close>, which
  becomes the end of the match, or 0 when there is none; without them the search starts
  at 0 and \<^verbatim>\<open>lastIndex\<close> is left as it is.  With \<^verbatim>\<open>y\<close> only the start index is
  tried.\<close>

record regexp =
  source :: regex
  global :: bool
  sticky :: bool
  lastIndex :: nat

definition new_regexp :: "regex \<Rightarrow> bool \<Rightarrow> bool \<Rightarrow> regexp" where
  "new_regexp r g y = \<lparr>source = r, global = g, sticky = y, lastIndex = 0\<rparr>"

definition regexp_test :: "regexp \<Rightarrow> string \<Rightarrow> bool \<times> regexp" where
  "regexp_test R S =
     (let keep = global R \<or> sticky R;
          i = (if keep then lastIndex R else 0)
      in if length S < i then (False, if keep then R\<lparr>lastIndex := 0\<rparr> else R)
         else (case scan_from (source R) (sticky R) (before None (take i S)) (drop i S) of
                 None \<Rightarrow> (False, if keep then R\<lparr>lastIndex := 0\<rparr> else R)
               | Some e \<Rightarrow> (True, if keep then R\<lparr>lastIndex := length S - e\<rparr> else R)))"

text \<open>The two arrays of the module.  \<open>test_until_match\<close> is
  \<^verbatim>\<open>IGNORE_PATTERNS.some(r => r.test(line))\<close> and the \<^verbatim>\<open>for\<close> loop with its
  \<^verbatim>\<open>break\<close>: the objects are tested in order up to the first that matches.  The
  patterns written as literals inside a function are new objects at each evaluation.\<close>

record registry =
  ignore_objs :: "regexp list"
  side_effect_objs :: "regexp list"

definition module_registry :: registry where
  "module_registry =
     \<lparr>ignore_objs = map (\<lambda>r. new_regexp r False False) IGNORE_PATTERNS,
      side_effect_objs = map (\<lambda>r. new_regexp r False False) SIDE_EFFECT_PATTERNS\<rparr>"

fun test_until_match :: "regexp list \<Rightarrow> string \<Rightarrow> bool \<times> regexp list" where
  "test_until_match [] s = (False, [])"
| "test_until_match (R # Rs) s =
     (case regexp_test R s of (b, R') \<Rightarrow>
        if b then (True, R' # Rs)
        else (case test_until_match Rs s of (b', Rs') \<Rightarrow> (b', R' # Rs')))"

definition classify_h :: "string \<Rightarrow> nat \<Rightarrow> string \<Rightarrow> registry \<Rightarrow> finding option \<times> registry" where
  "classify_h filePath i ln H =
     (case test_until_match (ignore_objs H) ln of (ignored, io) \<Rightarrow>
        if ignored then (None, H\<lparr>ignore_objs := io\<rparr>)
        else (case test_until_match (side_effect_objs H) ln of (matched, so) \<Rightarrow>
                (if matched
                 then Some \<lparr>f_file = filePath, f_line = i + 1, f_code = ln,
                        f_reason = explainSideEffect ln\<rparr>
                 else None,
                 H\<lparr>ignore_objs := io, side_effect_objs := so\<rparr>)))"

definition loop_body_h ::
  "string \<Rightarrow> nat \<Rightarrow> string \<Rightarrow> scan_state \<times> registry \<Rightarrow> scan_state \<times> registry" where
  "loop_body_h filePath i ln sh =
     (case sh of (st, H) \<Rightarrow>
        let trimmed = trim ln;
            st1 = (if test rx_block_opener trimmed then st\<lparr>inFunctionOrClass := True\<rparr>
                   else st)
        in if inFunctionOrClass st1 then
             let st2 = (if test rx_lbrace ln then st1\<lparr>blockDepth := blockDepth st1 + 1\<rparr>
                        else st1);
                 st3 = (if test rx_rbrace ln then st2\<lparr>blockDepth := blockDepth st2 - 1\<rparr>
                        else st2)
             in (if blockDepth st3 \<le> 0 then st3\<lparr>inFunctionOrClass := False\<rparr> else st3, H)
           else (case classify_h filePath i ln H of
                   (None, H') \<Rightarrow> (st1, H')
                 | (Some f, H') \<Rightarrow> (st1\<lparr>findings := findings st1 @ [f]\<rparr>, H')))"

fun scan_lines_h ::
  "string \<Rightarrow> nat \<Rightarrow> string list \<Rightarrow> scan_state \<times> registry \<Rightarrow> scan_state \<times> registry" where
  "scan_lines_h filePath i [] sh = sh"
| "scan_lines_h filePath i (ln # lns) sh =
     scan_lines_h filePath (i + 1) lns (loop_body_h filePath i ln sh)"

definition analyzeLines_h :: "string \<Rightarrow> string list \<Rightarrow> registry \<Rightarrow> finding list \<times> registry" where
  "analyzeLines_h filePath lns H =
     (case scan_lines_h filePath 0 lns (initial_state, H) of (st, H') \<Rightarrow> (findings st, H'))"

text \<open>An object without the \<^verbatim>\<open>g\<close> and \<^verbatim>\<open>y\<close> flags; a state of the two arrays that
  holds the patterns of the source with their flags, whatever the values of
  \<^verbatim>\<open>lastIndex\<close>.\<close>

definition plain :: "regexp \<Rightarrow> bool" where
  "plain R = (\<not> global R \<and> \<not> sticky R)"

definition source_registry :: "registry \<Rightarrow> bool" where
  "source_registry H =
     (map source (ignore_objs H) = IGNORE_PATTERNS \<and> list_all plain (ignore_objs H)
      \<and> map source (side_effect_objs H) = SIDE_EFFECT_PATTERNS
      \<and> list_all plain (side_effect_objs H))"

section \<open>Evaluation of the character classes\<close>

lemma code_unit_Char:
  "code_unit (Char b0 b1 b2 b3 b4 b5 b6 b7) =
     of_bool b0 + 2 * of_bool b1 + 4 * of_bool b2 + 8 * of_bool b3 + 16 * of_bool b4
     + 32 * of_bool b5 + 64 * of_bool b6 + 128 * of_bool b7"
  by (simp add: code_unit_def)

lemma is_lower_Char [code]:
  "is_lower (Char b0 b1 b2 b3 b4 b5 b6 b7) =
     (\<not> b7 \<and> b6 \<and> b5 \<and> (b4 \<or> b3 \<or> b2 \<or> b1 \<or> b0) \<and> \<not> (b4 \<and> b3 \<and> (b2 \<or> (b1 \<and> b0))))"
  unfolding is_lower_def code_unit_Char
  by (cases b0; cases b1; cases b2; cases b3; cases b4; cases b5; cases b6; cases b7;
      simp add: code_unit_def)

lemma is_upper_Char [code]:
  "is_upper (Char b0 b1 b2 b3 b4 b5 b6 b7) =
     (\<not> b7 \<and> b6 \<and> \<not> b5 \<and> (b4 \<or> b3 \<or> b2 \<or> b1 \<or> b0) \<and> \<not> (b4 \<and> b3 \<and> (b2 \<or> (b1 \<and> b0))))"
  unfolding is_upper_def code_unit_Char
  by (cases b0; cases b1; cases b2; cases b3; cases b4; cases b5; cases b6; cases b7;
      simp add: code_unit_def)

lemma is_digit_Char [code]:
  "is_digit (Char b0 b1 b2 b3 b4 b5 b6 b7) =
     (\<not> b7 \<and> \<not> b6 \<and> b5 \<and> b4 \<and> \<not> (b3 \<and> (b2 \<or> b1)))"
  unfolding is_digit_def code_unit_Char
  by (cases b0; cases b1; cases b2; cases b3; cases b4; cases b5; cases b6; cases b7;
      simp add: code_unit_def)

lemma is_space_Char [code]:
  "is_space (Char b0 b1 b2 b3 b4 b5 b6 b7) =
     ((\<not> b7 \<and> \<not> b6 \<and> \<not> b5 \<and> \<not> b4 \<and> b3 \<and> (b2 \<or> b1 \<or> b0) \<and> \<not> (b2 \<and> b1))
      \<or> (\<not> b6 \<and> b5 \<and> \<not> b4 \<and> \<not> b3 \<and> \<not> b2 \<and> \<not> b1 \<and> \<not> b0))"
  unfolding is_space_def code_unit_Char
  by (cases b0; cases b1; cases b2; cases b3; cases b4; cases b5; cases b6; cases b7; simp)

lemma is_dot_Char [code]:
  "is_dot (Char b0 b1 b2 b3 b4 b5 b6 b7) =
     (\<not> (\<not> b7 \<and> \<not> b6 \<and> \<not> b5 \<and> \<not> b4 \<and> b3 \<and> ((\<not> b2 \<and> b1 \<and> \<not> b0) \<or> (b2 \<and> \<not> b1 \<and> b0))))"
  unfolding is_dot_def code_unit_Char
  by (cases b0; cases b1; cases b2; cases b3; cases b4; cases b5; cases b6; cases b7; simp)

lemma canonicalize_Char [code]:
  "canonicalize (Char b0 b1 b2 b3 b4 b5 b6 b7) =
     (if is_lower (Char b0 b1 b2 b3 b4 b5 b6 b7) then Char b0 b1 b2 b3 b4 False b6 b7
      else Char b0 b1 b2 b3 b4 b5 b6 b7)"
  by (cases b0; cases b1; cases b2; cases b3; cases b4; cases b5; cases b6; cases b7;
      simp add: canonicalize_def is_lower_Char code_unit_def char_of_def bit_Suc_0_iff)

section \<open>Facts about the matcher\<close>

lemma search_chr: "search (chr c) p s = (c \<in> set s)"
  by (induction s arbitrary: p) (auto simp: chr_def accept_def)

lemma test_chr: "test (chr c) s = (c \<in> set s)"
  by (simp add: test_def search_chr)

lemma test_lbrace: "test rx_lbrace ln = (CHR ''{'' \<in> set ln)"
  by (simp add: rx_lbrace_def test_chr)

lemma test_rbrace: "test rx_rbrace ln = (CHR ''}'' \<in> set ln)"
  by (simp add: rx_rbrace_def test_chr)

lemma before_Nil: "before p [] = p"
  by (simp add: before_def)

lemma before_Cons: "before p (c # w) = before (Some c) w"
  by (simp add: before_def)

lemma search_append: "matcher r accept (before p pre) s \<Longrightarrow> search r p (pre @ s)"
proof (induction pre arbitrary: p)
  case Nil
  then show ?case by (cases s) (simp_all add: before_Nil)
next
  case (Cons c pre)
  then show ?case by (simp add: before_Cons)
qed

lemma repeat_Chars:
  "length w \<le> n \<Longrightarrow> \<forall>c \<in> set w. A c \<Longrightarrow> k (before p w) rest
     \<Longrightarrow> repeat n (matcher (Chars A)) k p (w @ rest)"
proof (induction w arbitrary: n p)
  case Nil
  then show ?case by (cases n) (simp_all add: before_Nil)
next
  case (Cons c w)
  then obtain m where n: "n = Suc m" by (cases n) auto
  have "repeat m (matcher (Chars A)) k (Some c) (w @ rest)"
  proof (rule Cons.IH)
    show "length w \<le> m" using Cons.prems(1) n by simp
    show "\<forall>c \<in> set w. A c" using Cons.prems(2) by simp
    show "k (before (Some c) w) rest" using Cons.prems(3) by (simp add: before_Cons)
  qed
  moreover have "A c" using Cons.prems(2) by simp
  ultimately have "matcher (Chars A) (repeat m (matcher (Chars A)) k) p (c # w @ rest)"
    by simp
  then show ?case unfolding n by (simp del: matcher.simps)
qed

lemma matcher_Star_Chars:
  "\<forall>c \<in> set w. A c \<Longrightarrow> k (before p w) rest \<Longrightarrow> matcher (Star (Chars A)) k p (w @ rest)"
  using repeat_Chars [of w "length (w @ rest)" A k p rest] by simp

lemma matcher_Star_skip: "k p s \<Longrightarrow> matcher (Star (Chars A)) k p s"
  using matcher_Star_Chars [of "[]" A k p s] by (simp add: before_Nil)

lemma matcher_istr:
  "map canonicalize w = map canonicalize key
     \<Longrightarrow> matcher (istr key) k p (w @ rest) = k (before p w) rest"
proof (induction key arbitrary: w p)
  case Nil
  then show ?case by (simp add: istr_def seqs_def before_Nil)
next
  case (Cons c key)
  then obtain x w' where w: "w = x # w'" "canonicalize x = canonicalize c"
      "map canonicalize w' = map canonicalize key"
    by (cases w) auto
  have "matcher (istr key) k (Some x) (w' @ rest) = k (before (Some x) w') rest"
    using Cons.IH [OF w(3)] .
  then show ?case using w by (simp add: istr_def seqs_def ichr_def before_Cons)
qed

lemma alts_Cons: "rs \<noteq> [] \<Longrightarrow> alts (r # rs) = Alt r (alts rs)"
  by (cases rs) simp_all

lemma matcher_alts_istr:
  "key \<in> set keys \<Longrightarrow> map canonicalize w = map canonicalize key \<Longrightarrow> k (before p w) rest
     \<Longrightarrow> matcher (alts (map istr keys)) k p (w @ rest)"
proof (induction keys)
  case Nil
  then show ?case by simp
next
  case (Cons key0 keys)
  show ?case
  proof (cases "keys = []")
    case True
    then show ?thesis using Cons.prems by (simp add: matcher_istr)
  next
    case False
    then have "alts (map istr (key0 # keys)) = Alt (istr key0) (alts (map istr keys))"
      by (simp add: alts_Cons)
    then show ?thesis using Cons by (auto simp: matcher_istr)
  qed
qed

lemma is_word_canonicalize: "is_word (canonicalize c) = is_word c"
proof (cases c)
  case (Char b0 b1 b2 b3 b4 b5 b6 b7)
  show ?thesis unfolding Char
    by (cases b0; cases b1; cases b2; cases b3; cases b4; cases b5; cases b6; cases b7;
        simp add: is_word_def canonicalize_Char is_lower_Char is_upper_Char is_digit_Char)
qed

lemma sdk_name_starts_word:
  assumes "key \<in> set sdk_names" and "map canonicalize w = map canonicalize key"
  shows "word_after (w @ rest)"
proof -
  have key: "key \<noteq> [] \<and> is_word (hd key)"
    using assms(1)
    by (auto simp: sdk_names_def is_word_def is_lower_Char is_upper_Char)
  then obtain x w' where w: "w = x # w'" "canonicalize x = canonicalize (hd key)"
    using assms(2) by (cases w; cases key) auto
  have "is_word x"
    using is_word_canonicalize [of x] is_word_canonicalize [of "hd key"] w(2) key by simp
  then show ?thesis using w(1) by (simp add: word_after_def)
qed

lemma seq_StarI:
  assumes "\<forall>c \<in> set w. A c" and "matcher r k (before p w) rest"
  shows "matcher (Seq (Star (Chars A)) r) k p (w @ rest)"
  using matcher_Star_Chars [of w A "matcher r k" p rest] assms
  by (simp only: matcher.simps(6))

lemma seq_chrI:
  assumes "matcher r k (Some c) rest"
  shows "matcher (Seq (chr c) r) k p (c # rest)"
  using assms by (simp add: chr_def)

lemma seq_WordBI:
  assumes "word_before p \<noteq> word_after s" and "matcher r k p s"
  shows "matcher (Seq WordB r) k p s"
  using assms by simp

lemma seq_alts_istrI:
  assumes "key \<in> set keys" and "map canonicalize w = map canonicalize key"
    and "matcher r k (before p w) rest"
  shows "matcher (Seq (alts (map istr keys)) r) k p (w @ rest)"
  using matcher_alts_istr [of key keys w "matcher r k" p rest] assms
  by (simp only: matcher.simps(6))

lemma pat_sdk_matches:
  assumes "key \<in> set sdk_names" and "map canonicalize kw = map canonicalize key"
    and "pre = [] \<or> \<not> is_word (last pre)"
    and "\<forall>c \<in> set w. is_word c" and "\<forall>c \<in> set sp. is_space c" and "\<forall>c \<in> set args. is_dot c"
  shows "test pat_sdk (pre @ kw @ w @ sp @ ''('' @ args @ '')'' @ post)"
proof -
  let ?rest = "[] @ w @ sp @ CHR ''('' # args @ CHR '')'' # post"
  have nb: "\<not> word_before (before None pre)"
    using assms(3) by (auto simp: before_def word_before_def)
  have wa: "word_after (kw @ ?rest)"
    using sdk_name_starts_word [OF assms(1,2)] .
  have "matcher
      (Seq WordB (Seq (alts (map istr sdk_names))
        (Seq (Star (Chars (\<lambda>c. is_space c \<or> c = CHR ''.''))) (Seq (Star (Chars is_word))
          (Seq (Star (Chars is_space)) (Seq (chr CHR ''('') (Seq (Star (Chars is_dot))
            (Seq (chr CHR '')'') Eps))))))))
      accept (before None pre) (kw @ ?rest)"
  proof (rule seq_WordBI)
    show "word_before (before None pre) \<noteq> word_after (kw @ ?rest)"
      using nb wa by simp
    show "matcher
      (Seq (alts (map istr sdk_names))
        (Seq (Star (Chars (\<lambda>c. is_space c \<or> c = CHR ''.''))) (Seq (Star (Chars is_word))
          (Seq (Star (Chars is_space)) (Seq (chr CHR ''('') (Seq (Star (Chars is_dot))
            (Seq (chr CHR '')'') Eps)))))))
      accept (before None pre) (kw @ ?rest)"
      apply (rule seq_alts_istrI [OF assms(1,2)])
      apply (rule seq_StarI)
       apply simp
      apply (rule seq_StarI)
       apply (rule assms(4))
      apply (rule seq_StarI)
       apply (rule assms(5))
      apply (rule seq_chrI)
      apply (rule seq_StarI)
       apply (rule assms(6))
      apply (rule seq_chrI)
      apply (simp add: accept_def)
      done
  qed
  moreover have "pat_sdk =
      Seq WordB (Seq (alts (map istr sdk_names))
        (Seq (Star (Chars (\<lambda>c. is_space c \<or> c = CHR ''.''))) (Seq (Star (Chars is_word))
          (Seq (Star (Chars is_space)) (Seq (chr CHR ''('') (Seq (Star (Chars is_dot))
            (Seq (chr CHR '')'') Eps)))))))"
    by (simp add: pat_sdk_def seqs_def wordc_def ws_def dot_def)
  ultimately have "matcher pat_sdk accept (before None pre) (kw @ ?rest)"
    by (simp only:)
  then have "search pat_sdk None (pre @ kw @ ?rest)"
    by (rule search_append)
  then show ?thesis by (simp add: test_def)
qed

text \<open>Where the patterns anchored at the start of the line cannot match.\<close>

lemma search_Bol_later: "\<not> search (Seq Bol r) (Some c) s"
  by (induction s arbitrary: c) simp_all

lemma test_Bol: "test (Seq Bol r) s = matcher r accept None s"
  by (cases s) (simp_all add: test_def search_Bol_later)

lemma search_Alt: "search (Alt a b) p s = (search a p s \<or> search b p s)"
  by (induction s arbitrary: p) auto

lemma test_Alt: "test (Alt a b) s = (test a s \<or> test b s)"
  by (simp add: test_def search_Alt)

lemma is_word_not_space: "is_word c \<Longrightarrow> \<not> is_space c"
proof (cases c)
  case (Char b0 b1 b2 b3 b4 b5 b6 b7)
  assume "is_word c"
  then show ?thesis unfolding Char
    by (cases b0; cases b1; cases b2; cases b3; cases b4; cases b5; cases b6; cases b7;
        simp add: is_word_def is_space_Char is_lower_Char is_upper_Char is_digit_Char)
qed

text \<open>White space, then a character that is none, then a continuation that fails on
  all of them: the repetition of \<^verbatim>\<open>\s\<close> fails.\<close>

lemma repeat_ws_fails:
  assumes "\<forall>c \<in> set pre. is_space c" and "\<not> is_space x"
    and "\<And>p' s'. s' \<noteq> [] \<Longrightarrow> hd s' \<in> set pre \<or> hd s' = x \<Longrightarrow> \<not> k p' s'"
  shows "\<not> repeat n (matcher (Chars is_space)) k p (pre @ x # cs)"
  using assms
proof (induction pre arbitrary: n p)
  case Nil
  then show ?case by (cases n) simp_all
next
  case (Cons a pre)
  have k0: "\<not> k p ((a # pre) @ x # cs)"
    using Cons.prems(3) [of "(a # pre) @ x # cs" p] by simp
  show ?case
  proof (cases n)
    case 0
    then show ?thesis using k0 by simp
  next
    case (Suc m)
    have "\<not> repeat m (matcher (Chars is_space)) k (Some a) (pre @ x # cs)"
    proof (rule Cons.IH)
      show "\<forall>c \<in> set pre. is_space c" using Cons.prems(1) by simp
      show "\<not> is_space x" by (rule Cons.prems(2))
      show "\<not> k p' s'" if "s' \<noteq> []" and "hd s' \<in> set pre \<or> hd s' = x" for p' s'
        using Cons.prems(3) [of s' p'] that by auto
    qed
    then have "\<not> matcher (Chars is_space) (repeat m (matcher (Chars is_space)) k) p
        ((a # pre) @ x # cs)"
      by simp
    then show ?thesis using k0 unfolding Suc by (simp del: matcher.simps)
  qed
qed

lemma trim_indent:
  assumes "\<forall>c \<in> set pre. is_space c" and "\<not> is_space x1" and "\<not> is_space x2"
  shows "\<exists>t'. trim (pre @ x1 # x2 # t) = x1 # x2 # t'"
proof -
  have 1: "dropWhile is_space (pre @ x1 # x2 # t) = x1 # x2 # t"
    using assms(1,2) by (simp add: dropWhile_append)
  have "rev (x1 # x2 # t) = rev t @ [x2, x1]" by simp
  then have "\<exists>u. dropWhile is_space (rev (x1 # x2 # t)) = u @ [x2, x1]"
    using assms(2,3) by (simp add: dropWhile_append)
  then obtain u where "dropWhile is_space (rev (x1 # x2 # t)) = u @ [x2, x1]" by blast
  then have "trim (pre @ x1 # x2 # t) = x1 # x2 # rev u"
    using 1 by (simp add: trim_def)
  then show ?thesis by blast
qed

lemma opener_needs_keyword:
  assumes "is_word x1" and "x1 \<noteq> CHR ''e''" and "x1 \<noteq> CHR ''c''"
    and "\<not> (x1 = CHR ''f'' \<and> x2 = CHR ''u'')" and "\<not> (x1 = CHR ''a'' \<and> x2 = CHR ''s'')"
  shows "\<not> test rx_block_opener (x1 # x2 # t)"
  using assms
  by (auto simp: rx_block_opener_def test_Alt seqs_def test_Bol Opt_def str_def chr_def
      split: list.splits if_splits)


lemma ws_prefix_fails:
  assumes "\<forall>c \<in> set pre. is_space c" and "\<not> is_space x"
    and "\<And>p' s'. s' \<noteq> [] \<Longrightarrow> hd s' \<in> set pre \<or> hd s' = x
           \<Longrightarrow> \<not> matcher (seqs rs) accept p' s'"
  shows "\<not> test (seqs (Bol # Star ws # rs)) (pre @ x # cs)"
proof -
  have "seqs (Bol # Star ws # rs) = Seq Bol (Seq (Star (Chars is_space)) (seqs rs))"
    by (simp add: seqs_def ws_def)
  moreover have "\<not> repeat n (matcher (Chars is_space)) (matcher (seqs rs) accept) None
      (pre @ x # cs)" for n
    using assms by (rule repeat_ws_fails)
  ultimately show ?thesis by (simp add: test_Bol del: matcher.simps(1))
qed

lemma statement_not_ignored:
  assumes "\<forall>c \<in> set pre. is_space c" and "is_word x1"
    and "x1 \<notin> {CHR ''e'', CHR ''c'', CHR ''l'', CHR ''v''}"
    and "\<not> (x1 = CHR ''f'' \<and> x2 = CHR ''u'')" and "\<not> (x1 = CHR ''a'' \<and> x2 = CHR ''s'')"
  shows "\<not> list_ex (\<lambda>r. test r (pre @ x1 # x2 # t)) IGNORE_PATTERNS"
proof -
  let ?ln = "pre @ x1 # x2 # t"
  have ns: "\<not> is_space x1" using assms(2) by (rule is_word_not_space)
  have x1: "x1 \<noteq> CHR ''/''" "x1 \<noteq> CHR ''*''"
    using assms(2) by (auto simp: is_word_def is_lower_Char is_upper_Char is_digit_Char)
  have sp: "c \<noteq> CHR ''/''" "c \<noteq> CHR ''*''" "c \<noteq> CHR ''e''" "c \<noteq> CHR ''f''"
      "c \<noteq> CHR ''c''" "c \<noteq> CHR ''l''" "c \<noteq> CHR ''v''" "c \<noteq> CHR ''a''"
    if "is_space c" for c
    using that by (auto simp: is_space_Char)
  have 1: "\<not> test ign_export ?ln"
    using assms(1,3) sp(3)
    by (cases pre) (auto simp: ign_export_def seqs_def test_Bol str_def chr_def)
  have 2: "\<not> test ign_decl ?ln"
    using assms(1,3,4,5) sp(4-8)
    by (cases pre) (auto simp: ign_decl_def seqs_def test_Bol str_def chr_def
        split: list.splits if_splits)
  have 3: "\<not> test ign_line_comment ?ln"
    using assms(1) x1(1) sp(1)
    by (cases pre) (auto simp: ign_line_comment_def seqs_def test_Bol chr_def)
  have 4: "\<not> test ign_block_start ?ln"
    unfolding ign_block_start_def
  proof (rule ws_prefix_fails [OF assms(1) ns])
    show "\<not> matcher (seqs [chr CHR ''/'', chr CHR ''*'']) accept p' s'"
      if "s' \<noteq> []" and "hd s' \<in> set pre \<or> hd s' = x1" for p' s'
      using that assms(1) x1(1) sp(1) by (cases s') (auto simp: seqs_def chr_def)
  qed
  have 5: "\<not> test ign_block_end ?ln"
    unfolding ign_block_end_def
  proof (rule ws_prefix_fails [OF assms(1) ns])
    show "\<not> matcher (seqs [chr CHR ''*'', chr CHR ''/'']) accept p' s'"
      if "s' \<noteq> []" and "hd s' \<in> set pre \<or> hd s' = x1" for p' s'
      using that assms(1) x1(2) sp(2) by (cases s') (auto simp: seqs_def chr_def)
  qed
  have 6: "\<not> test ign_block_line ?ln"
    unfolding ign_block_line_def
  proof (rule ws_prefix_fails [OF assms(1) ns])
    show "\<not> matcher (seqs [chr CHR ''*'']) accept p' s'"
      if "s' \<noteq> []" and "hd s' \<in> set pre \<or> hd s' = x1" for p' s'
      using that assms(1) x1(2) sp(2) by (cases s') (auto simp: seqs_def chr_def)
  qed
  have 7: "\<not> test ign_empty ?ln"
    unfolding ign_empty_def
  proof (rule ws_prefix_fails [OF assms(1) ns])
    show "\<not> matcher (seqs [Eol]) accept p' s'"
      if "s' \<noteq> []" and "hd s' \<in> set pre \<or> hd s' = x1" for p' s'
      using that by (simp add: seqs_def)
  qed
  from 1 2 3 4 5 6 7 show ?thesis by (simp add: IGNORE_PATTERNS_def)
qed


lemma sdk_name_head:
  assumes "key \<in> set sdk_names" and "map canonicalize kw = map canonicalize key"
  shows "\<exists>x1 x2 kw'. kw = x1 # x2 # kw' \<and> is_word x1 \<and> is_word x2
    \<and> x1 \<notin> {CHR ''e'', CHR ''c'', CHR ''l'', CHR ''v''}
    \<and> \<not> (x1 = CHR ''f'' \<and> x2 = CHR ''u'') \<and> \<not> (x1 = CHR ''a'' \<and> x2 = CHR ''s'')"
proof -
  obtain k1 k2 key' where key: "key = k1 # k2 # key'"
      "(canonicalize k1, canonicalize k2) \<in> {(CHR ''F'', CHR ''I''), (CHR ''A'', CHR ''W''),
         (CHR ''A'', CHR ''Z''), (CHR ''A'', CHR ''M''), (CHR ''G'', CHR ''A''),
         (CHR ''S'', CHR ''T''), (CHR ''T'', CHR ''W'')}"
    using assms(1) by (auto simp: sdk_names_def canonicalize_Char is_lower_Char)
  obtain x1 x2 kw' where kw: "kw = x1 # x2 # kw'" "canonicalize x1 = canonicalize k1"
      "canonicalize x2 = canonicalize k2"
    using assms(2) unfolding key(1) by (auto simp: map_eq_Cons_conv)
  have w: "is_word (canonicalize k1)" "is_word (canonicalize k2)"
    using key(2) by (auto simp: is_word_def is_upper_Char)
  have w1: "is_word x1" using is_word_canonicalize [of x1] kw(2) w(1) by simp
  have w2: "is_word x2" using is_word_canonicalize [of x2] kw(3) w(2) by simp
  have c: "canonicalize CHR ''e'' = CHR ''E''" "canonicalize CHR ''c'' = CHR ''C''"
      "canonicalize CHR ''l'' = CHR ''L''" "canonicalize CHR ''v'' = CHR ''V''"
      "canonicalize CHR ''f'' = CHR ''F''" "canonicalize CHR ''u'' = CHR ''U''"
      "canonicalize CHR ''a'' = CHR ''A''" "canonicalize CHR ''s'' = CHR ''S''"
    by (simp_all add: canonicalize_Char is_lower_Char)
  have "x1 \<notin> {CHR ''e'', CHR ''c'', CHR ''l'', CHR ''v''}"
    using kw(2) key(2) c(1-4) by auto
  moreover have "\<not> (x1 = CHR ''f'' \<and> x2 = CHR ''u'')"
    using kw(2,3) key(2) c(5,6) by auto
  moreover have "\<not> (x1 = CHR ''a'' \<and> x2 = CHR ''s'')"
    using kw(2,3) key(2) c(7,8) by auto
  ultimately show ?thesis using kw(1) w1 w2 by blast
qed

text \<open>A line that begins, after white space only, with a name of the SDK pattern is neither
  ignored nor an opener.\<close>

lemma sdk_statement_classified:
  assumes "key \<in> set sdk_names" and "map canonicalize kw = map canonicalize key"
    and "\<forall>c \<in> set pre. is_space c"
  shows "\<not> list_ex (\<lambda>r. test r (pre @ kw @ rest)) IGNORE_PATTERNS"
    and "\<not> test rx_block_opener (trim (pre @ kw @ rest))"
proof -
  obtain x1 x2 kw' where h: "kw = x1 # x2 # kw'" "is_word x1" "is_word x2"
      "x1 \<notin> {CHR ''e'', CHR ''c'', CHR ''l'', CHR ''v''}"
      "\<not> (x1 = CHR ''f'' \<and> x2 = CHR ''u'')" "\<not> (x1 = CHR ''a'' \<and> x2 = CHR ''s'')"
    using sdk_name_head [OF assms(1,2)] by blast
  have ln: "pre @ kw @ rest = pre @ x1 # x2 # (kw' @ rest)"
    using h(1) by simp
  show "\<not> list_ex (\<lambda>r. test r (pre @ kw @ rest)) IGNORE_PATTERNS"
    unfolding ln using assms(3) h(2,4,5,6) by (rule statement_not_ignored)
  obtain t' where "trim (pre @ x1 # x2 # (kw' @ rest)) = x1 # x2 # t'"
    using trim_indent [OF assms(3) is_word_not_space [OF h(2)] is_word_not_space [OF h(3)]]
    by blast
  moreover have "\<not> test rx_block_opener (x1 # x2 # t')"
    using h(2,4,5,6) by (intro opener_needs_keyword) auto
  ultimately show "\<not> test rx_block_opener (trim (pre @ kw @ rest))"
    unfolding ln by simp
qed

section \<open>Facts about the loop\<close>

lemma loop_body_tracked:
  assumes "inFunctionOrClass st \<or> test rx_block_opener (trim ln)"
  shows "blockDepth (loop_body fp i ln st) =
           blockDepth st + (if CHR ''{'' \<in> set ln then 1 else 0)
             - (if CHR ''}'' \<in> set ln then 1 else 0)"
    and "inFunctionOrClass (loop_body fp i ln st) = (0 < blockDepth (loop_body fp i ln st))"
    and "findings (loop_body fp i ln st) = findings st"
  using assms by (auto simp: loop_body_def Let_def test_lbrace test_rbrace)

lemma loop_body_module:
  assumes "\<not> inFunctionOrClass st" and "\<not> test rx_block_opener (trim ln)"
  shows "blockDepth (loop_body fp i ln st) = blockDepth st"
    and "\<not> inFunctionOrClass (loop_body fp i ln st)"
    and "findings (loop_body fp i ln st) =
           findings st @ (case classify fp i ln of None \<Rightarrow> [] | Some f \<Rightarrow> [f])"
  using assms by (auto simp: loop_body_def Let_def split: option.splits)

lemma find_Some_list_ex: "(find P xs \<noteq> None) = list_ex P xs"
  by (induction xs) auto

lemma classify_Some:
  "classify fp i ln = Some f \<longleftrightarrow>
     f = \<lparr>f_file = fp, f_line = i + 1, f_code = ln, f_reason = explainSideEffect ln\<rparr>
     \<and> \<not> list_ex (\<lambda>r. test r ln) IGNORE_PATTERNS
     \<and> list_ex (\<lambda>p. test p ln) SIDE_EFFECT_PATTERNS"
  using find_Some_list_ex [of "\<lambda>p. test p ln" SIDE_EFFECT_PATTERNS]
  by (auto simp: classify_def split: option.splits)

lemma loop_body_findings:
  "findings (loop_body fp i ln st) = findings st
   \<or> (\<not> inFunctionOrClass st \<and> \<not> test rx_block_opener (trim ln)
      \<and> (\<exists>f. classify fp i ln = Some f \<and> findings (loop_body fp i ln st) = findings st @ [f]))"
proof (cases "inFunctionOrClass st \<or> test rx_block_opener (trim ln)")
  case True
  then show ?thesis by (simp add: loop_body_tracked(3))
next
  case False
  then show ?thesis
    using loop_body_module(3) [of st ln fp i] by (cases "classify fp i ln") auto
qed

text \<open>What a run of the loop adds to the findings: one finding at most for each line, in
  the order of the lines, each built from a line that no ignore pattern matches and some
  side-effect pattern does.\<close>

lemma scan_lines_findings:
  "\<exists>new. findings (scan_lines fp i lns st) = findings st @ new
     \<and> sorted_wrt (<) (map f_line new)
     \<and> (\<forall>f \<in> set new. \<exists>j < length lns. classify fp (i + j) (lns ! j) = Some f)"
proof (induction lns arbitrary: i st)
  case Nil
  then show ?case by simp
next
  case (Cons ln lns)
  obtain new2 where n2: "findings (scan_lines fp (i + 1) lns (loop_body fp i ln st))
        = findings (loop_body fp i ln st) @ new2"
      "sorted_wrt (<) (map f_line new2)"
      "\<forall>f \<in> set new2. \<exists>j < length lns. classify fp (i + 1 + j) (lns ! j) = Some f"
    using Cons.IH [of "i + 1" "loop_body fp i ln st"] by blast
  have later: "\<forall>f \<in> set new2. \<exists>j < length (ln # lns). classify fp (i + j) ((ln # lns) ! j) = Some f"
  proof
    fix f assume "f \<in> set new2"
    then obtain j where "j < length lns" "classify fp (i + 1 + j) (lns ! j) = Some f"
      using n2(3) by blast
    then have "Suc j < length (ln # lns) \<and> classify fp (i + Suc j) ((ln # lns) ! Suc j) = Some f"
      by simp
    then show "\<exists>j < length (ln # lns). classify fp (i + j) ((ln # lns) ! j) = Some f"
      by blast
  qed
  have big: "\<forall>f \<in> set new2. i + 1 < f_line f"
  proof
    fix f assume "f \<in> set new2"
    then obtain j where "classify fp (i + 1 + j) (lns ! j) = Some f"
      using n2(3) by blast
    then show "i + 1 < f_line f" by (auto simp: classify_Some)
  qed
  from loop_body_findings [of fp i ln st] show ?case
  proof
    assume same: "findings (loop_body fp i ln st) = findings st"
    have "findings (scan_lines fp i (ln # lns) st) = findings st @ new2"
      using n2(1) same by simp
    with n2(2) later show ?thesis by blast
  next
    assume "\<not> inFunctionOrClass st \<and> \<not> test rx_block_opener (trim ln)
      \<and> (\<exists>f. classify fp i ln = Some f \<and> findings (loop_body fp i ln st) = findings st @ [f])"
    then obtain f where f: "classify fp i ln = Some f"
        "findings (loop_body fp i ln st) = findings st @ [f]"
      by blast
    have fl: "f_line f = i + 1" using f(1) by (auto simp: classify_Some)
    have 1: "findings (scan_lines fp i (ln # lns) st) = findings st @ (f # new2)"
      using n2(1) f(2) by simp
    have 2: "sorted_wrt (<) (map f_line (f # new2))"
      using n2(2) big fl by auto
    have 3: "\<forall>g \<in> set (f # new2). \<exists>j < length (ln # lns). classify fp (i + j) ((ln # lns) ! j) = Some g"
    proof
      fix g assume "g \<in> set (f # new2)"
      then consider "g = f" | "g \<in> set new2" by auto
      then show "\<exists>j < length (ln # lns). classify fp (i + j) ((ln # lns) ! j) = Some g"
      proof cases
        case 1
        then have "0 < length (ln # lns) \<and> classify fp (i + 0) ((ln # lns) ! 0) = Some g"
          using f(1) by simp
        then show ?thesis by blast
      next
        case 2
        then show ?thesis using later by blast
      qed
    qed
    from 1 2 3 show ?thesis by blast
  qed
qed

lemma analyzeLines_findings:
  "sorted_wrt (<) (map f_line (analyzeLines fp lns))
   \<and> (\<forall>f \<in> set (analyzeLines fp lns). \<exists>j < length lns. classify fp j (lns ! j) = Some f)"
  using scan_lines_findings [of fp 0 lns initial_state]
  by (auto simp: analyzeLines_def initial_state_def)

text \<open>Outside a block the depth is never positive, in every state the loop reaches.\<close>

lemma loop_body_outside:
  assumes "inFunctionOrClass st \<or> blockDepth st \<le> 0"
  shows "inFunctionOrClass (loop_body fp i ln st) \<or> blockDepth (loop_body fp i ln st) \<le> 0"
proof (cases "inFunctionOrClass st \<or> test rx_block_opener (trim ln)")
  case True
  then show ?thesis using loop_body_tracked(2) [OF True, of fp i] by auto
next
  case False
  then show ?thesis using loop_body_module(1,2) [of st ln fp i] assms by simp
qed

lemma scan_lines_outside:
  assumes "inFunctionOrClass st \<or> blockDepth st \<le> 0"
  shows "inFunctionOrClass (scan_lines fp i lns st) \<or> blockDepth (scan_lines fp i lns st) \<le> 0"
  using assms by (induction lns arbitrary: i st) (simp_all add: loop_body_outside)

text \<open>The two matchers agree on whether there is a match.\<close>

lemma repeat_end_iff:
  assumes "\<And>k p s. (m' k p s \<noteq> None) = m (\<lambda>p s. k p s \<noteq> None) p s"
  shows "(repeat_end n m' k p s \<noteq> None) = repeat n m (\<lambda>p s. k p s \<noteq> None) p s"
proof (induction n arbitrary: p s)
  case 0
  show ?case by simp
next
  case (Suc n)
  have "(\<lambda>p s. repeat_end n m' k p s \<noteq> None) = repeat n m (\<lambda>p s. k p s \<noteq> None)"
    using Suc by (intro ext) (simp del: not_None_eq)
  then have "(m' (repeat_end n m' k) p s \<noteq> None) = m (repeat n m (\<lambda>p s. k p s \<noteq> None)) p s"
    using assms [of "repeat_end n m' k" p s] by (simp del: not_None_eq)
  then show ?case
    by (cases "m' (repeat_end n m' k) p s") (simp_all del: not_None_eq)
qed

lemma matcher_end_iff:
  "(matcher_end r k p s \<noteq> None) = matcher r (\<lambda>p s. k p s \<noteq> None) p s"
proof (induction r arbitrary: k p s)
  case (Seq a b)
  have "(\<lambda>p s. matcher_end b k p s \<noteq> None) = matcher b (\<lambda>p s. k p s \<noteq> None)"
    using Seq(2) by (intro ext) (simp del: not_None_eq)
  then show ?case using Seq(1) [of "matcher_end b k" p s] by (simp del: not_None_eq)
next
  case (Alt a b)
  show ?case
    using Alt(1) [of k p s] Alt(2) [of k p s]
    by (cases "matcher_end a k p s") (simp_all del: not_None_eq)
next
  case (Star a)
  show ?case
    using repeat_end_iff [of "matcher_end a" "matcher a" "length s" k p s] Star
    by (simp del: not_None_eq)
qed (simp_all del: not_None_eq split: list.splits)

lemma scan_from_iff: "(scan_from r False p s \<noteq> None) = search r p s"
proof -
  have a: "(\<lambda>p s. rest_length p s \<noteq> None) = accept"
    by (intro ext) (simp add: rest_length_def accept_def)
  have m: "(matcher_end r rest_length p s \<noteq> None) = matcher r accept p s" for p s
    using matcher_end_iff [of r rest_length p s] a by (simp del: not_None_eq)
  show ?thesis
  proof (induction s arbitrary: p)
    case Nil
    show ?case using m [of p "[]"] by (simp del: not_None_eq)
  next
    case (Cons c cs)
    show ?case using m [of p "c # cs"] Cons [of "Some c"]
      by (cases "matcher_end r rest_length p (c # cs)") (simp_all del: not_None_eq)
  qed
qed

lemma regexp_test_plain:
  assumes "plain R"
  shows "regexp_test R S = (test (source R) S, R)"
proof -
  have "(scan_from (source R) False None S \<noteq> None) = test (source R) S"
    using scan_from_iff [of "source R" None S] by (simp only: test_def)
  then show ?thesis
    using assms
    by (cases "scan_from (source R) False None S")
      (simp_all add: regexp_test_def plain_def before_def del: not_None_eq)
qed

lemma fresh_literal_test: "fst (regexp_test (new_regexp r False False) s) = test r s"
  by (simp add: regexp_test_plain plain_def new_regexp_def)

text \<open>On objects without the \<^verbatim>\<open>g\<close> and \<^verbatim>\<open>y\<close> flags the analysis over the shared
  objects is the analysis \<open>analyzeLines\<close>, and it leaves the objects as they were.\<close>

lemma test_until_match_plain:
  "list_all plain Rs \<Longrightarrow> test_until_match Rs s = (list_ex (\<lambda>r. test r s) (map source Rs), Rs)"
  by (induction Rs) (auto simp: regexp_test_plain)

lemma classify_h_plain:
  assumes "source_registry H"
  shows "classify_h fp i ln H = (classify fp i ln, H)"
proof -
  have i: "test_until_match (ignore_objs H) ln = (list_ex (\<lambda>r. test r ln) IGNORE_PATTERNS, ignore_objs H)"
    using assms test_until_match_plain [of "ignore_objs H" ln] by (simp add: source_registry_def)
  have s: "test_until_match (side_effect_objs H) ln
      = (list_ex (\<lambda>r. test r ln) SIDE_EFFECT_PATTERNS, side_effect_objs H)"
    using assms test_until_match_plain [of "side_effect_objs H" ln]
    by (simp add: source_registry_def)
  show ?thesis
    using find_Some_list_ex [of "\<lambda>p. test p ln" SIDE_EFFECT_PATTERNS]
    by (auto simp: classify_h_def classify_def i s split: option.splits)
qed

lemma loop_body_h_plain:
  assumes "source_registry H"
  shows "loop_body_h fp i ln (st, H) = (loop_body fp i ln st, H)"
  using classify_h_plain [OF assms, of fp i ln]
  by (auto simp: loop_body_h_def loop_body_def Let_def split: option.splits)

lemma scan_lines_h_plain:
  assumes "source_registry H"
  shows "scan_lines_h fp i lns (st, H) = (scan_lines fp i lns st, H)"
  by (induction lns arbitrary: i st) (simp_all add: loop_body_h_plain [OF assms])

lemma analyzeLines_h_plain:
  assumes "source_registry H"
  shows "analyzeLines_h fp lns H = (analyzeLines fp lns, H)"
  by (simp add: analyzeLines_h_def analyzeLines_def scan_lines_h_plain [OF assms])

lemma source_registry_module: "source_registry module_registry"
  by (simp add: source_registry_def module_registry_def new_regexp_def plain_def
      list_all_iff comp_def)

text \<open>With the \<^verbatim>\<open>g\<close> flag on the side-effect patterns a second run over the same line
  would differ from the first: the pattern for calls is left with \<^verbatim>\<open>lastIndex\<close> 4
  and finds nothing from there.\<close>

lemma global_flag_runs_differ:
  "fst (analyzeLines_h ''a.js'' [''f();'']
     (module_registry\<lparr>side_effect_objs :=
        map (\<lambda>r. new_regexp r True False) SIDE_EFFECT_PATTERNS\<rparr>))
   = [\<lparr>f_file = ''a.js'', f_line = 1, f_code = ''f();'',
        f_reason = ''Function/method call at top level (not wrapped in function/class)''\<rparr>]
   \<and> fst (analyzeLines_h ''a.js'' [''f();'']
       (snd (analyzeLines_h ''a.js'' [''f();'']
         (module_registry\<lparr>side_effect_objs :=
            map (\<lambda>r. new_regexp r True False) SIDE_EFFECT_PATTERNS\<rparr>))))
     = []"
  by code_simp

text \<open>Lines that declare with \<^verbatim>\<open>const\<close>, \<^verbatim>\<open>let\<close> or \<^verbatim>\<open>var\<close>.\<close>

lemma opener_needs_keyword2:
  assumes "x1 \<noteq> CHR ''e''" and "\<not> (x1 = CHR ''c'' \<and> x2 = CHR ''l'')"
    and "\<not> (x1 = CHR ''f'' \<and> x2 = CHR ''u'')" and "\<not> (x1 = CHR ''a'' \<and> x2 = CHR ''s'')"
  shows "\<not> test rx_block_opener (x1 # x2 # t)"
  using assms
  by (auto simp: rx_block_opener_def test_Alt seqs_def test_Bol Opt_def str_def chr_def
      split: list.splits if_splits)

lemma declaration_line:
  assumes "decl \<in> {''const'', ''let'', ''var''}" and "is_space c"
  shows "\<not> test rx_block_opener (trim (decl @ c # rest))"
    and "test ign_decl (decl @ c # rest)"
proof -
  obtain x1 x2 d where d: "decl = x1 # x2 # d" "\<not> is_space x1" "\<not> is_space x2"
      "x1 \<noteq> CHR ''e''" "\<not> (x1 = CHR ''c'' \<and> x2 = CHR ''l'')"
      "\<not> (x1 = CHR ''f'' \<and> x2 = CHR ''u'')" "\<not> (x1 = CHR ''a'' \<and> x2 = CHR ''s'')"
    using assms(1) by (auto simp: is_space_Char)
  obtain t' where "trim ([] @ x1 # x2 # (d @ c # rest)) = x1 # x2 # t'"
    using trim_indent [of "[]" x1 x2 "d @ c # rest"] d(2,3) by auto
  then have "trim (decl @ c # rest) = x1 # x2 # t'"
    using d(1) by simp
  then show "\<not> test rx_block_opener (trim (decl @ c # rest))"
    using opener_needs_keyword2 [OF d(4-7), of t'] by simp
  show "test ign_decl (decl @ c # rest)"
    using assms
    by (auto simp: ign_decl_def seqs_def test_Bol str_def chr_def ws_def accept_def)
qed

text \<open>A run of lines outside every block, none of them an opener: each line is classified.\<close>

lemma scan_lines_module:
  assumes "\<not> inFunctionOrClass st" and "\<forall>l \<in> set lns. \<not> test rx_block_opener (trim l)"
  shows "findings (scan_lines fp k lns st)
    = findings st @ List.map_filter (\<lambda>(j, l). classify fp j l) (zip [k ..< k + length lns] lns)"
  using assms
proof (induction lns arbitrary: k st)
  case Nil
  then show ?case by simp
next
  case (Cons l lns)
  have l: "\<not> test rx_block_opener (trim l)" using Cons.prems(2) by simp
  have st': "\<not> inFunctionOrClass (loop_body fp k l st)"
    using loop_body_module(2) [OF Cons.prems(1) l] .
  have "findings (scan_lines fp (k + 1) lns (loop_body fp k l st))
      = findings (loop_body fp k l st)
        @ List.map_filter (\<lambda>(j, l). classify fp j l) (zip [k + 1 ..< k + 1 + length lns] lns)"
    using Cons.IH [OF st'] Cons.prems(2) by simp
  moreover have "[k ..< k + length (l # lns)] = k # [k + 1 ..< k + 1 + length lns]"
    by (subst upt_conv_Cons) simp_all
  ultimately show ?case
    using loop_body_module(3) [OF Cons.prems(1) l, of fp k]
    by (simp split: option.splits)
qed

text \<open>The loops of \<^verbatim>\<open>main\<close> append the findings of each file.\<close>

lemma scan_into_append: "scan_into rd acc f = acc @ analyzeFile rd f"
  by (simp add: scan_into_def Let_def)

lemma foldl_scan_into:
  "foldl (scan_into rd) acc fs = acc @ concat (map (analyzeFile rd) fs)"
  by (induction fs arbitrary: acc) (simp_all add: scan_into_append)

lemma foldl_dirs:
  "foldl (\<lambda>allFindings dir. foldl (scan_into rd) allFindings (gaf dir)) acc ds
     = acc @ concat (map (analyzeFile rd) (concat (map gaf ds)))"
  by (induction ds arbitrary: acc) (simp_all add: foldl_scan_into)

lemma analyzeFile_sorted: "sorted (map f_line (analyzeFile rd f))"
  using analyzeLines_findings [of f "split_lines [] (rd f)"]
  by (simp add: analyzeFile_def strict_sorted_imp_sorted)

text \<open>The six patterns of \<^verbatim>\<open>explainSideEffect\<close> are the six of
  \<^verbatim>\<open>SIDE_EFFECT_PATTERNS\<close>.\<close>

lemma explain_patterns:
  "exp_sdk = pat_sdk" "exp_assign = pat_assign" "exp_listener = pat_listener"
  "exp_define = pat_define" "exp_mutate = pat_mutate" "exp_call = pat_call"
  by (simp_all add: exp_sdk_def pat_sdk_def sdk_names_def exp_assign_def pat_assign_def exp_listener_def
      pat_listener_def exp_define_def pat_define_def exp_mutate_def pat_mutate_def
      exp_call_def pat_call_def)

lemma explain_recognizes:
  assumes "list_ex (\<lambda>p. test p ln) SIDE_EFFECT_PATTERNS"
  shows "explainSideEffect ln \<noteq> ''Possible side effect''"
  using assms
  by (auto simp: SIDE_EFFECT_PATTERNS_def explainSideEffect_def explain_patterns)

section \<open>The claims\<close>

text \<open>C1: the line \<^verbatim>\<open>AWS.config.update({ region: "us-east-1" });\<close> at module scope gives
  one finding, but the SDK pattern does not match it: after the namespace the pattern
  allows one member name before the parenthesis, and the line has two.  The finding comes
  from the pattern for top-level calls and carries the reason of a plain call; the same
  holds for the indented line of the example output in the README.\<close>

theorem aws_config_update_reason:
  "\<not> test pat_sdk ''AWS.config.update({ region: \"us-east-1\" });''
   \<and> analyzeLines ''src/utils/awsHelpers.js'' [''AWS.config.update({ region: \"us-east-1\" });'']
     = [\<lparr>f_file = ''src/utils/awsHelpers.js'', f_line = 1,
         f_code = ''AWS.config.update({ region: \"us-east-1\" });'',
         f_reason = ''Function/method call at top level (not wrapped in function/class)''\<rparr>]
   \<and> map f_reason (analyzeLines ''src/utils/awsHelpers.js''
         [''  AWS.config.update({ region: \"us-east-1\" });''])
     = [''Function/method call at top level (not wrapped in function/class)'']"
  by code_simp

text \<open>C2: a line that some ignore pattern matches gives no finding, whatever the
  side-effect patterns say about it: \<open>classify\<close> returns nothing, the loop body leaves the
  findings as they were, and no finding of a file carries the number of such a line.\<close>

theorem ignore_rules_dominate:
  assumes "list_ex (\<lambda>r. test r ln) IGNORE_PATTERNS"
  shows "classify fp i ln = None \<and> findings (loop_body fp i ln st) = findings st
    \<and> (\<forall>lns j. j < length lns \<and> lns ! j = ln
          \<longrightarrow> (\<forall>f \<in> set (analyzeLines fp lns). f_line f \<noteq> j + 1))"
proof -
  have none: "classify fp i ln = None" for i
    using assms by (simp add: classify_def)
  have step: "findings (loop_body fp i ln st) = findings st"
    using loop_body_findings [of fp i ln st] none by auto
  have whole: "f_line f \<noteq> j + 1"
    if a: "j < length lns" and b: "lns ! j = ln" and c: "f \<in> set (analyzeLines fp lns)"
    for lns j f
  proof
    assume eq: "f_line f = j + 1"
    obtain k where k: "k < length lns" "classify fp k (lns ! k) = Some f"
      using analyzeLines_findings [of fp lns] c by blast
    then have "f_line f = k + 1" by (auto simp: classify_Some)
    with eq have "k = j" by simp
    with k(2) b none [of j] show False by simp
  qed
  from none step whole show ?thesis by blast
qed

theorem ignore_rules_dominate_witness:
  "list_ex (\<lambda>r. test r ''const x = window.y = 1;'') IGNORE_PATTERNS
   \<and> list_ex (\<lambda>p. test p ''const x = window.y = 1;'') SIDE_EFFECT_PATTERNS
   \<and> classify ''a.js'' 0 ''const x = window.y = 1;'' = None
   \<and> findings (loop_body ''a.js'' 0 ''const x = window.y = 1;'' initial_state)
       = findings initial_state"
proof -
  have ign: "list_ex (\<lambda>r. test r ''const x = window.y = 1;'') IGNORE_PATTERNS"
    by code_simp
  have eff: "list_ex (\<lambda>p. test p ''const x = window.y = 1;'') SIDE_EFFECT_PATTERNS"
    by code_simp
  from ignore_rules_dominate [OF ign, of "''a.js''" 0 initial_state] ign eff
  show ?thesis by blast
qed

text \<open>C3: a line met while the tracker is inside a block (the flag was already set, or the
  line is a function or class opener, which sets it) gives no finding, whatever it
  contains; so the three lines of a function assigning to \<^verbatim>\<open>window\<close> give none.\<close>

theorem tracked_lines_skipped:
  "(inFunctionOrClass st \<or> test rx_block_opener (trim ln)
      \<longrightarrow> findings (loop_body fp i ln st) = findings st)
   \<and> analyzeLines fp [''function init() {'', ''  window.myGlobal = true;'', ''}''] = []"
proof
  show "inFunctionOrClass st \<or> test rx_block_opener (trim ln)
      \<longrightarrow> findings (loop_body fp i ln st) = findings st"
    by (simp add: loop_body_tracked(3))
  show "analyzeLines fp [''function init() {'', ''  window.myGlobal = true;'', ''}''] = []"
    by code_simp
qed

theorem tracked_lines_skipped_witness:
  "inFunctionOrClass \<lparr>inFunctionOrClass = True, blockDepth = 1, findings = []\<rparr>
   \<and> classify ''a.js'' 1 ''  window.myGlobal = true;'' \<noteq> None
   \<and> findings (loop_body ''a.js'' 1 ''  window.myGlobal = true;''
        \<lparr>inFunctionOrClass = True, blockDepth = 1, findings = []\<rparr>) = []"
proof -
  have inb: "inFunctionOrClass \<lparr>inFunctionOrClass = True, blockDepth = 1, findings = []\<rparr>"
    by simp
  have cls: "classify ''a.js'' 1 ''  window.myGlobal = true;'' \<noteq> None"
    by code_simp
  from tracked_lines_skipped [of "\<lparr>inFunctionOrClass = True, blockDepth = 1, findings = []\<rparr>"
      "''  window.myGlobal = true;''" "''a.js''" 1] inb cls
  show ?thesis by simp
qed

text \<open>C4: inside a block the depth goes up by one when the line contains an opening
  brace, however many, and down by one when it contains a closing brace; the flag stays
  set exactly when the depth is still positive, and the line gives no finding.\<close>

theorem tracked_depth_update:
  assumes "inFunctionOrClass st \<or> test rx_block_opener (trim ln)"
  shows "blockDepth (loop_body fp i ln st) =
           blockDepth st + (if CHR ''{'' \<in> set ln then 1 else 0)
             - (if CHR ''}'' \<in> set ln then 1 else 0)
    \<and> inFunctionOrClass (loop_body fp i ln st) = (0 < blockDepth (loop_body fp i ln st))
    \<and> findings (loop_body fp i ln st) = findings st"
  using loop_body_tracked [OF assms] by blast

theorem tracked_depth_update_witness:
  "inFunctionOrClass \<lparr>inFunctionOrClass = True, blockDepth = 1, findings = []\<rparr>
   \<and> blockDepth (loop_body ''a.js'' 4 ''  } else {{ window.x = 1;''
        \<lparr>inFunctionOrClass = True, blockDepth = 1, findings = []\<rparr>) = 1
   \<and> inFunctionOrClass (loop_body ''a.js'' 4 ''  } else {{ window.x = 1;''
        \<lparr>inFunctionOrClass = True, blockDepth = 1, findings = []\<rparr>)
   \<and> \<not> inFunctionOrClass (loop_body ''a.js'' 5 ''}''
        \<lparr>inFunctionOrClass = True, blockDepth = 1, findings = []\<rparr>)
   \<and> findings (loop_body ''a.js'' 5 ''}''
        \<lparr>inFunctionOrClass = True, blockDepth = 1, findings = []\<rparr>) = []"
proof -
  from tracked_depth_update [of "\<lparr>inFunctionOrClass = True, blockDepth = 1, findings = []\<rparr>"
      "''  } else {{ window.x = 1;''" "''a.js''" 4]
    tracked_depth_update [of "\<lparr>inFunctionOrClass = True, blockDepth = 1, findings = []\<rparr>"
      "''}''" "''a.js''" 5]
  show ?thesis by simp
qed

text \<open>C5: the reason \<^verbatim>\<open>Possible side effect\<close> is never given: a line that some
  side-effect pattern matches is recognised by one of the six branches of
  \<^verbatim>\<open>explainSideEffect\<close>, and no finding of a file carries the fallback reason.\<close>

theorem fallback_unreachable:
  "((\<exists>p \<in> set SIDE_EFFECT_PATTERNS. test p ln)
      \<longrightarrow> explainSideEffect ln \<noteq> ''Possible side effect'')
   \<and> (\<forall>f \<in> set (analyzeLines fp lns). f_reason f \<noteq> ''Possible side effect'')"
proof
  show "(\<exists>p \<in> set SIDE_EFFECT_PATTERNS. test p ln)
      \<longrightarrow> explainSideEffect ln \<noteq> ''Possible side effect''"
    using explain_recognizes [of ln] by (simp add: list_ex_iff)
  show "\<forall>f \<in> set (analyzeLines fp lns). f_reason f \<noteq> ''Possible side effect''"
  proof
    fix f assume "f \<in> set (analyzeLines fp lns)"
    then obtain j where "classify fp j (lns ! j) = Some f"
      using analyzeLines_findings [of fp lns] by blast
    then have "f_reason f = explainSideEffect (lns ! j)"
        "list_ex (\<lambda>p. test p (lns ! j)) SIDE_EFFECT_PATTERNS"
      by (auto simp: classify_Some)
    then show "f_reason f \<noteq> ''Possible side effect''"
      using explain_recognizes by simp
  qed
qed

theorem fallback_unreachable_witness:
  "(\<exists>p \<in> set SIDE_EFFECT_PATTERNS. test p ''doSomething();'')
   \<and> explainSideEffect ''doSomething();'' \<noteq> ''Possible side effect''
   \<and> analyzeLines ''a.js'' [''doSomething();''] \<noteq> []"
proof -
  have m: "\<exists>p \<in> set SIDE_EFFECT_PATTERNS. test p ''doSomething();''"
    unfolding list_ex_iff [symmetric] by code_simp
  have n: "analyzeLines ''a.js'' [''doSomething();''] \<noteq> []"
    by code_simp
  from fallback_unreachable [of "''doSomething();''" "''a.js''" "[''doSomething();'']"] m n
  show ?thesis by blast
qed

text \<open>C6: the findings of a run are the findings of the files one after the other, in the
  order the directories and their files come in; the findings of a file are in the order
  of their line numbers; nothing is dropped, merged or moved, so a file that comes twice
  gives its findings twice.\<close>

theorem findings_concatenated:
  "main_findings gaf rd = concat (map (analyzeFile rd) (concat (map gaf UTILS_DIRS)))
   \<and> foldl (scan_into rd) acc fs = acc @ concat (map (analyzeFile rd) fs)
   \<and> sorted (map f_line (analyzeFile rd f))
   \<and> foldl (scan_into rd) [] [f, f] = analyzeFile rd f @ analyzeFile rd f"
  using foldl_dirs [of rd gaf "[]" UTILS_DIRS] foldl_scan_into [of rd acc fs]
    analyzeFile_sorted [of rd f]
  by (simp add: main_findings_def scan_into_append)

theorem findings_concatenated_witness:
  "main_findings (\<lambda>dir. if dir = ''utils/'' then [''utils/a.js'', ''utils/a.js''] else [])
     (\<lambda>filePath. [CHR ''f'', CHR ''('', CHR '')'', CHR 0x0A, CHR 0x0A, CHR ''g'', CHR ''('', CHR '')''])
   = [\<lparr>f_file = ''utils/a.js'', f_line = 1, f_code = ''f()'',
        f_reason = ''Function/method call at top level (not wrapped in function/class)''\<rparr>,
      \<lparr>f_file = ''utils/a.js'', f_line = 3, f_code = ''g()'',
        f_reason = ''Function/method call at top level (not wrapped in function/class)''\<rparr>,
      \<lparr>f_file = ''utils/a.js'', f_line = 1, f_code = ''f()'',
        f_reason = ''Function/method call at top level (not wrapped in function/class)''\<rparr>,
      \<lparr>f_file = ''utils/a.js'', f_line = 3, f_code = ''g()'',
        f_reason = ''Function/method call at top level (not wrapped in function/class)''\<rparr>]"
proof -
  have one: "analyzeFile
      (\<lambda>filePath. [CHR ''f'', CHR ''('', CHR '')'', CHR 0x0A, CHR 0x0A, CHR ''g'', CHR ''('', CHR '')''])
      ''utils/a.js''
    = [\<lparr>f_file = ''utils/a.js'', f_line = 1, f_code = ''f()'',
        f_reason = ''Function/method call at top level (not wrapped in function/class)''\<rparr>,
      \<lparr>f_file = ''utils/a.js'', f_line = 3, f_code = ''g()'',
        f_reason = ''Function/method call at top level (not wrapped in function/class)''\<rparr>]"
    by code_simp
  from findings_concatenated [of
      "\<lambda>dir. if dir = ''utils/'' then [''utils/a.js'', ''utils/a.js''] else []"
      "\<lambda>filePath. [CHR ''f'', CHR ''('', CHR '')'', CHR 0x0A, CHR 0x0A, CHR ''g'', CHR ''('', CHR '')'']"]
    one
  show ?thesis by (simp add: UTILS_DIRS_def)
qed

text \<open>C7: two runs of the analysis on the same lines, the second started on the pattern
  objects as the first has left them, give the same findings, field by field and in the
  same order: those of \<open>analyzeLines\<close>.  Each run starts from new loop variables, and the
  shared objects, which have neither the \<^verbatim>\<open>g\<close> nor the \<^verbatim>\<open>y\<close> flag, come out of
  a run as they went in, whatever their \<^verbatim>\<open>lastIndex\<close>.\<close>

theorem analysis_deterministic:
  assumes "source_registry H0"
    and "analyzeLines_h fp lns H0 = (r1, H1)" and "analyzeLines_h fp lns H1 = (r2, H2)"
  shows "r1 = r2 \<and> r1 = analyzeLines fp lns \<and> H1 = H0 \<and> H2 = H0"
proof -
  have 1: "r1 = analyzeLines fp lns" "H1 = H0"
    using analyzeLines_h_plain [OF assms(1), of fp lns] assms(2) by simp_all
  have 2: "r2 = analyzeLines fp lns" "H2 = H0"
    using analyzeLines_h_plain [OF assms(1), of fp lns] assms(3) 1(2) by simp_all
  from 1 2 show ?thesis by simp
qed

theorem analysis_deterministic_witness:
  "source_registry module_registry
   \<and> analyzeLines_h ''a.js'' [''window.myGlobal = true;'', ''doSomething();''] module_registry
     = ([\<lparr>f_file = ''a.js'', f_line = 1, f_code = ''window.myGlobal = true;'',
           f_reason = ''Assignment to window/global/globalThis at top level''\<rparr>,
         \<lparr>f_file = ''a.js'', f_line = 2, f_code = ''doSomething();'',
           f_reason = ''Function/method call at top level (not wrapped in function/class)''\<rparr>],
        module_registry)
   \<and> analyzeLines ''a.js'' [''window.myGlobal = true;'', ''doSomething();'']
     = [\<lparr>f_file = ''a.js'', f_line = 1, f_code = ''window.myGlobal = true;'',
          f_reason = ''Assignment to window/global/globalThis at top level''\<rparr>,
        \<lparr>f_file = ''a.js'', f_line = 2, f_code = ''doSomething();'',
          f_reason = ''Function/method call at top level (not wrapped in function/class)''\<rparr>]"
proof -
  have a: "source_registry module_registry"
    by (rule source_registry_module)
  have b: "analyzeLines_h ''a.js'' [''window.myGlobal = true;'', ''doSomething();'']
      module_registry
     = ([\<lparr>f_file = ''a.js'', f_line = 1, f_code = ''window.myGlobal = true;'',
           f_reason = ''Assignment to window/global/globalThis at top level''\<rparr>,
         \<lparr>f_file = ''a.js'', f_line = 2, f_code = ''doSomething();'',
           f_reason = ''Function/method call at top level (not wrapped in function/class)''\<rparr>],
        module_registry)"
    by code_simp
  from analysis_deterministic [OF a b b] a b show ?thesis by simp
qed

text \<open>C8, as the code has it: when the tracker is outside every block (the flag is clear
  and the depth is not positive; it is 0 at the start of a file) and a line is an opener
  without an opening brace, the flag is set and cleared again on that line.  The depth
  stays as it was when the line has no closing brace and goes down by one when it has
  one.  The line gives no finding, and the lines that follow, up to the next opener, are
  classified as lines at module scope.\<close>

theorem opener_without_brace:
  assumes "\<not> inFunctionOrClass st" and "blockDepth st \<le> 0"
    and "test rx_block_opener (trim ln)" and "CHR ''{'' \<notin> set ln"
  shows "\<not> inFunctionOrClass (loop_body fp i ln st)
    \<and> blockDepth (loop_body fp i ln st)
        = (if CHR ''}'' \<in> set ln then blockDepth st - 1 else blockDepth st)
    \<and> blockDepth (loop_body fp i ln st) \<le> 0
    \<and> findings (loop_body fp i ln st) = findings st
    \<and> (\<forall>lns. (\<forall>l \<in> set lns. \<not> test rx_block_opener (trim l))
         \<longrightarrow> findings (scan_lines fp (i + 1) lns (loop_body fp i ln st))
             = findings st @ List.map_filter (\<lambda>(j, l). classify fp j l)
                 (zip [i + 1 ..< i + 1 + length lns] lns))"
proof -
  have t: "inFunctionOrClass st \<or> test rx_block_opener (trim ln)"
    using assms(3) by simp
  have d: "blockDepth (loop_body fp i ln st)
      = (if CHR ''}'' \<in> set ln then blockDepth st - 1 else blockDepth st)"
    using loop_body_tracked(1) [OF t, of fp i] assms(4) by simp
  then have le: "blockDepth (loop_body fp i ln st) \<le> 0"
    using assms(2) by (simp split: if_splits)
  then have f: "\<not> inFunctionOrClass (loop_body fp i ln st)"
    using loop_body_tracked(2) [OF t, of fp i] by simp
  have s: "findings (loop_body fp i ln st) = findings st"
    using loop_body_tracked(3) [OF t] .
  have "findings (scan_lines fp (i + 1) lns (loop_body fp i ln st))
      = findings st @ List.map_filter (\<lambda>(j, l). classify fp j l)
          (zip [i + 1 ..< i + 1 + length lns] lns)"
    if "\<forall>l \<in> set lns. \<not> test rx_block_opener (trim l)" for lns
    using scan_lines_module [OF f that, of fp "i + 1"] s by simp
  with f d le s show ?thesis by blast
qed

theorem opener_without_brace_witness:
  "test rx_block_opener (trim ''function f()'')
   \<and> \<not> inFunctionOrClass (loop_body ''a.js'' 0 ''function f()'' initial_state)
   \<and> blockDepth (loop_body ''a.js'' 0 ''function f()'' initial_state) = 0
   \<and> analyzeLines ''a.js'' [''function f()'', ''{'', ''  window.x = 1;'', ''}'']
     = [\<lparr>f_file = ''a.js'', f_line = 3, f_code = ''  window.x = 1;'',
          f_reason = ''Assignment to window/global/globalThis at top level''\<rparr>]"
proof -
  have o: "test rx_block_opener (trim ''function f()'')"
    by code_simp
  have n: "\<forall>l \<in> set [''{'', ''  window.x = 1;'', ''}'']. \<not> test rx_block_opener (trim l)"
    unfolding list_all_iff [symmetric] by code_simp
  have m: "List.map_filter (\<lambda>(j, l). classify ''a.js'' j l)
        (zip [0 + 1 ..< 0 + 1 + length [''{'', ''  window.x = 1;'', ''}'']]
           [''{'', ''  window.x = 1;'', ''}''])
      = [\<lparr>f_file = ''a.js'', f_line = 3, f_code = ''  window.x = 1;'',
          f_reason = ''Assignment to window/global/globalThis at top level''\<rparr>]"
    by code_simp
  have i: "\<not> inFunctionOrClass initial_state" "blockDepth initial_state \<le> 0"
      "CHR ''{'' \<notin> set ''function f()''" "CHR ''}'' \<notin> set ''function f()''"
      "blockDepth initial_state = 0" "findings initial_state = []"
    by (simp_all add: initial_state_def)
  note th = opener_without_brace [OF i(1,2) o i(3), of "''a.js''" 0]
  from th have f: "\<not> inFunctionOrClass (loop_body ''a.js'' 0 ''function f()'' initial_state)"
    by blast
  from th i(4,5) have d: "blockDepth (loop_body ''a.js'' 0 ''function f()'' initial_state) = 0"
    by simp
  from th n have "findings (scan_lines ''a.js'' (0 + 1) [''{'', ''  window.x = 1;'', ''}'']
        (loop_body ''a.js'' 0 ''function f()'' initial_state))
      = findings initial_state @ List.map_filter (\<lambda>(j, l). classify ''a.js'' j l)
        (zip [0 + 1 ..< 0 + 1 + length [''{'', ''  window.x = 1;'', ''}'']]
           [''{'', ''  window.x = 1;'', ''}''])"
    by blast
  also have "\<dots> = [\<lparr>f_file = ''a.js'', f_line = 3, f_code = ''  window.x = 1;'',
          f_reason = ''Assignment to window/global/globalThis at top level''\<rparr>]"
    unfolding m i(6) by (rule append_Nil)
  finally have "analyzeLines ''a.js'' [''function f()'', ''{'', ''  window.x = 1;'', ''}'']
     = [\<lparr>f_file = ''a.js'', f_line = 3, f_code = ''  window.x = 1;'',
          f_reason = ''Assignment to window/global/globalThis at top level''\<rparr>]"
    by (simp only: analyzeLines_def scan_lines.simps)
  with o f d show ?thesis by blast
qed

text \<open>C8 as stated fails on two inputs.  An opener without an opening brace but with a
  closing one, here in a comment, takes the depth from 0 to -1.  And inside a tracked
  block of depth 1 an opener without a brace leaves the flag set, so the body of the inner
  function stays inside the block and gives no finding.\<close>

theorem opener_without_brace_counterexample:
  "test rx_block_opener (trim ''function f() // }'')
   \<and> CHR ''{'' \<notin> set ''function f() // }''
   \<and> blockDepth (loop_body ''a.js'' 0 ''function f() // }'' initial_state) = - 1
   \<and> test rx_block_opener (trim ''  function inner()'')
   \<and> CHR ''{'' \<notin> set ''  function inner()''
   \<and> inFunctionOrClass (loop_body ''a.js'' 1 ''  function inner()''
         \<lparr>inFunctionOrClass = True, blockDepth = 1, findings = []\<rparr>)
   \<and> analyzeLines ''a.js'' [''function outer() {'', ''  function inner()'', ''  {'',
         ''    window.x = 1;'', ''  }'', ''}''] = []"
  by code_simp

text \<open>C9: the SDK pattern looks for a name that begins with one of its seven words, not
  for the word alone.  A line in which, after a word boundary, one of the words (in any
  case) is followed by word characters, optional white space and a parenthesised argument
  list without line terminators is matched by the pattern and explained as a service
  initialisation.  Outside every block, when no ignore pattern matches the line, it gives
  a finding with that reason; and when only white space stands before the name, as in a
  call statement, no ignore pattern matches, the line is no opener, and the finding is
  given.\<close>

theorem sdk_prefix_reported:
  assumes "key \<in> set sdk_names" and "map canonicalize kw = map canonicalize key"
    and "pre = [] \<or> \<not> is_word (last pre)"
    and "\<forall>c \<in> set w. is_word c" and "\<forall>c \<in> set sp. is_space c" and "\<forall>c \<in> set args. is_dot c"
    and "ln = pre @ kw @ w @ sp @ ''('' @ args @ '')'' @ post"
  shows "test pat_sdk ln
    \<and> explainSideEffect ln = ''Service initialization at top level (e.g., SDK init)''
    \<and> (\<not> list_ex (\<lambda>r. test r ln) IGNORE_PATTERNS
         \<longrightarrow> classify fp i ln
             = Some \<lparr>f_file = fp, f_line = i + 1, f_code = ln,
                 f_reason = ''Service initialization at top level (e.g., SDK init)''\<rparr>)
    \<and> (\<not> inFunctionOrClass st \<and> \<not> test rx_block_opener (trim ln)
          \<and> \<not> list_ex (\<lambda>r. test r ln) IGNORE_PATTERNS
         \<longrightarrow> findings (loop_body fp i ln st)
             = findings st @ [\<lparr>f_file = fp, f_line = i + 1, f_code = ln,
                 f_reason = ''Service initialization at top level (e.g., SDK init)''\<rparr>])
    \<and> ((\<forall>c \<in> set pre. is_space c) \<and> \<not> inFunctionOrClass st
         \<longrightarrow> findings (loop_body fp i ln st)
             = findings st @ [\<lparr>f_file = fp, f_line = i + 1, f_code = ln,
                 f_reason = ''Service initialization at top level (e.g., SDK init)''\<rparr>])"
proof -
  have m: "test pat_sdk ln"
    unfolding assms(7) using assms(1-6) by (rule pat_sdk_matches)
  then have e: "explainSideEffect ln = ''Service initialization at top level (e.g., SDK init)''"
    by (simp add: explainSideEffect_def explain_patterns)
  have c: "classify fp i ln
      = Some \<lparr>f_file = fp, f_line = i + 1, f_code = ln,
          f_reason = ''Service initialization at top level (e.g., SDK init)''\<rparr>"
    if "\<not> list_ex (\<lambda>r. test r ln) IGNORE_PATTERNS"
    using that m e by (simp add: classify_def SIDE_EFFECT_PATTERNS_def)
  have l: "findings (loop_body fp i ln st)
      = findings st @ [\<lparr>f_file = fp, f_line = i + 1, f_code = ln,
          f_reason = ''Service initialization at top level (e.g., SDK init)''\<rparr>]"
    if "\<not> inFunctionOrClass st" and "\<not> test rx_block_opener (trim ln)"
      and "\<not> list_ex (\<lambda>r. test r ln) IGNORE_PATTERNS"
    using loop_body_module(3) [OF that(1,2), of fp i] c [OF that(3)] by simp
  have "findings (loop_body fp i ln st)
      = findings st @ [\<lparr>f_file = fp, f_line = i + 1, f_code = ln,
          f_reason = ''Service initialization at top level (e.g., SDK init)''\<rparr>]"
    if "\<forall>c \<in> set pre. is_space c" and "\<not> inFunctionOrClass st"
    using l [OF that(2)] sdk_statement_classified [OF assms(1,2) that(1)]
    unfolding assms(7) by blast
  with m e c l show ?thesis by blast
qed

theorem sdk_prefix_reported_witness:
  "analyzeLines ''a.js'' [''awsHelper();'']
   = [\<lparr>f_file = ''a.js'', f_line = 1, f_code = ''awsHelper();'',
        f_reason = ''Service initialization at top level (e.g., SDK init)''\<rparr>]"
proof -
  have k: "''AWS'' \<in> set sdk_names" by (simp add: sdk_names_def)
  have c: "map canonicalize ''aws'' = map canonicalize ''AWS''"
    by (simp add: canonicalize_Char is_lower_Char)
  have w: "\<forall>c \<in> set ''Helper''. is_word c"
    by (simp add: is_word_def is_lower_Char is_upper_Char)
  have l: "''awsHelper();'' = [] @ ''aws'' @ ''Helper'' @ [] @ ''('' @ [] @ '')'' @ '';''"
    by simp
  have "findings (loop_body ''a.js'' 0 ''awsHelper();'' initial_state)
      = findings initial_state @ [\<lparr>f_file = ''a.js'', f_line = 0 + 1, f_code = ''awsHelper();'',
          f_reason = ''Service initialization at top level (e.g., SDK init)''\<rparr>]"
    using sdk_prefix_reported [OF k c _ w _ _ l, of "''a.js''" 0 initial_state]
    by (simp add: initial_state_def)
  then show ?thesis by (simp add: analyzeLines_def initial_state_def)
qed

text \<open>C10: the body of an arrow function is not tracked.  A line that declares with
  \<^verbatim>\<open>const\<close>, \<^verbatim>\<open>let\<close> or \<^verbatim>\<open>var\<close>, such as \<^verbatim>\<open>const f = () => {\<close>, is no
  function or class opener and the declaration pattern ignores it; outside a block it
  leaves the state of the loop as it was, and the lines that follow, up to the next
  opener, are classified as lines at module scope.  So the assignment inside the body of
  \<^verbatim>\<open>const f = () => {\<close> is the one finding of the three lines.\<close>

theorem arrow_body_untracked:
  assumes "decl \<in> {''const'', ''let'', ''var''}" and "is_space c" and "ln = decl @ c # rest"
    and "\<not> inFunctionOrClass st"
  shows "\<not> test rx_block_opener (trim ln) \<and> test ign_decl ln
    \<and> loop_body fp i ln st = st
    \<and> (\<forall>lns. (\<forall>l \<in> set lns. \<not> test rx_block_opener (trim l))
         \<longrightarrow> findings (scan_lines fp (i + 1) lns (loop_body fp i ln st))
             = findings st @ List.map_filter (\<lambda>(j, l). classify fp j l)
                 (zip [i + 1 ..< i + 1 + length lns] lns))
    \<and> analyzeLines fp [''const f = () => {'', ''window.x = true;'', ''}'']
        = [\<lparr>f_file = fp, f_line = 2, f_code = ''window.x = true;'',
            f_reason = ''Assignment to window/global/globalThis at top level''\<rparr>]"
proof -
  have o: "\<not> test rx_block_opener (trim ln)" and g: "test ign_decl ln"
    unfolding assms(3) using declaration_line [OF assms(1,2)] by blast+
  have "classify fp i ln = None"
    using g by (simp add: classify_def IGNORE_PATTERNS_def)
  then have b: "loop_body fp i ln st = st"
    using o assms(4) by (simp add: loop_body_def Let_def)
  have f: "findings (scan_lines fp (i + 1) lns (loop_body fp i ln st))
      = findings st @ List.map_filter (\<lambda>(j, l). classify fp j l)
          (zip [i + 1 ..< i + 1 + length lns] lns)"
    if "\<forall>l \<in> set lns. \<not> test rx_block_opener (trim l)" for lns
    unfolding b using assms(4) that by (rule scan_lines_module)
  have e: "analyzeLines fp [''const f = () => {'', ''window.x = true;'', ''}'']
        = [\<lparr>f_file = fp, f_line = 2, f_code = ''window.x = true;'',
            f_reason = ''Assignment to window/global/globalThis at top level''\<rparr>]"
    by code_simp
  from o g b f e show ?thesis by blast
qed

theorem arrow_body_untracked_witness:
  "test ign_decl ''const f = () => {''
   \<and> \<not> test rx_block_opener (trim ''const f = () => {'')
   \<and> loop_body ''a.js'' 0 ''const f = () => {'' initial_state = initial_state
   \<and> findings (scan_lines ''a.js'' (0 + 1) [''window.x = true;'', ''}'']
        (loop_body ''a.js'' 0 ''const f = () => {'' initial_state))
     = [\<lparr>f_file = ''a.js'', f_line = 2, f_code = ''window.x = true;'',
          f_reason = ''Assignment to window/global/globalThis at top level''\<rparr>]"
proof -
  have d: "''const'' \<in> {''const'', ''let'', ''var''}" by simp
  have c: "is_space CHR '' ''" by (simp add: is_space_Char)
  have l: "''const f = () => {'' = ''const'' @ CHR '' '' # ''f = () => {''" by simp
  have i: "\<not> inFunctionOrClass initial_state" "findings initial_state = []"
    by (simp_all add: initial_state_def)
  have n: "\<forall>l \<in> set [''window.x = true;'', ''}'']. \<not> test rx_block_opener (trim l)"
    unfolding list_all_iff [symmetric] by code_simp
  have m: "List.map_filter (\<lambda>(j, l). classify ''a.js'' j l)
        (zip [0 + 1 ..< 0 + 1 + length [''window.x = true;'', ''}'']]
           [''window.x = true;'', ''}''])
      = [\<lparr>f_file = ''a.js'', f_line = 2, f_code = ''window.x = true;'',
          f_reason = ''Assignment to window/global/globalThis at top level''\<rparr>]"
    by code_simp
  note th = arrow_body_untracked [OF d c l i(1), of "''a.js''" 0]
  from th have 1: "test ign_decl ''const f = () => {''"
      "\<not> test rx_block_opener (trim ''const f = () => {'')"
      "loop_body ''a.js'' 0 ''const f = () => {'' initial_state = initial_state"
    by blast+
  from th n have "findings (scan_lines ''a.js'' (0 + 1) [''window.x = true;'', ''}'']
        (loop_body ''a.js'' 0 ''const f = () => {'' initial_state))
      = findings initial_state @ List.map_filter (\<lambda>(j, l). classify ''a.js'' j l)
        (zip [0 + 1 ..< 0 + 1 + length [''window.x = true;'', ''}'']]
           [''window.x = true;'', ''}''])"
    by blast
  also have "\<dots> = [\<lparr>f_file = ''a.js'', f_line = 2, f_code = ''window.x = true;'',
          f_reason = ''Assignment to window/global/globalThis at top level''\<rparr>]"
    unfolding m i(2) by (rule append_Nil)
  finally show ?thesis using 1 by blast
qed

end
